theory Spec2Isabelle
  imports Main
begin

section \<open>Reconciliation of Keycloak authentication executions\<close>

text \<open>
  A shallow embedding of \<^verbatim>\<open>plugins/modules/keycloak_authentication.py\<close>: the matcher
  \<^verbatim>\<open>find_exec_in_executions\<close>, \<^verbatim>\<open>get_identifier\<close>, the helpers that create and
  update one execution, and the reconciliation loop \<^verbatim>\<open>create_or_update_executions\<close>.

  Python dictionaries whose keys are fixed by the module's argument spec or by the
  Keycloak representation are records; a key whose value is \<^verbatim>\<open>None\<close> (desired side) or
  that is missing (existing side) is the value \<open>None\<close> of an option field. Every
  exception the source can raise is a value of \<open>error\<close>; a run ends either in a result
  or in an error together with the Gateway calls issued up to that point.
\<close>

subsection \<open>Data model\<close>

datatype error =
    KeyError string
  | TypeError
  | IndexError
  | RemoteError

datatype requirement = REQUIRED | ALTERNATIVE | DISABLED | CONDITIONAL

text \<open>
  \<^verbatim>\<open>authenticationConfig\<close> is a free-form dictionary (\<^verbatim>\<open>type='dict'\<close>); in the module's
  examples it has the keys \<^verbatim>\<open>alias\<close> (a string) and \<^verbatim>\<open>config\<close> (a dictionary of strings),
  and Keycloak adds \<^verbatim>\<open>id\<close>. It is kept as an association list in key order; a value is a
  string, a dictionary of strings, or \<^verbatim>\<open>None\<close>.
\<close>

datatype cfg_value = CfgStr string | CfgDict "(string \<times> string) list"

type_synonym auth_config = "(string \<times> cfg_value option) list"

text \<open>Python's \<^verbatim>\<open>==\<close> on two dictionaries ignores the order of the keys.\<close>

definition dict_eq :: "(string \<times> string) list \<Rightarrow> (string \<times> string) list \<Rightarrow> bool" where
  "dict_eq xs ys = list_all (\<lambda>k. map_of xs k = map_of ys k) (map fst xs @ map fst ys)"

fun cfg_value_eq :: "cfg_value \<Rightarrow> cfg_value \<Rightarrow> bool" where
  "cfg_value_eq (CfgStr a) (CfgStr b) = (a = b)"
| "cfg_value_eq (CfgDict a) (CfgDict b) = dict_eq a b"
| "cfg_value_eq _ _ = False"

fun py_eq :: "cfg_value option \<Rightarrow> cfg_value option \<Rightarrow> bool" where
  "py_eq None None = True"
| "py_eq (Some a) (Some b) = cfg_value_eq a b"
| "py_eq _ _ = False"

text \<open>
  One element of \<^verbatim>\<open>config["authenticationExecutions"]\<close> as the argument spec of \<^verbatim>\<open>main\<close>
  delivers it: all six keys are present, each possibly \<^verbatim>\<open>None\<close>.
\<close>

record exec_spec =
  es_providerId :: "string option"
  es_displayName :: "string option"
  es_requirement :: "requirement option"
  es_flowAlias :: "string option"
  es_authenticationConfig :: "auth_config option"
  es_index :: "int option"

text \<open>
  The same dictionary after line 304 has stored \<^verbatim>\<open>new_exec["level"]\<close>; \<open>ne_id\<close> is the key
  \<^verbatim>\<open>id\<close>, absent until line 321, 357 or 367 stores it.
\<close>

record new_exec = exec_spec +
  ne_level :: int
  ne_id :: "string option"

definition with_level :: "exec_spec \<Rightarrow> int \<Rightarrow> new_exec" where
  "with_level e l =
     \<lparr>es_providerId = es_providerId e, es_displayName = es_displayName e,
      es_requirement = es_requirement e, es_flowAlias = es_flowAlias e,
      es_authenticationConfig = es_authenticationConfig e, es_index = es_index e,
      ne_level = l, ne_id = None\<rparr>"

text \<open>
  One execution as \<^verbatim>\<open>kc.get_executions_representation\<close> returns it (see the sample in the
  module's \<^verbatim>\<open>RETURN\<close> block): \<^verbatim>\<open>id\<close>, \<^verbatim>\<open>requirement\<close>, \<^verbatim>\<open>level\<close> and \<^verbatim>\<open>index\<close> are always
  there; \<^verbatim>\<open>providerId\<close>, \<^verbatim>\<open>displayName\<close> and \<^verbatim>\<open>authenticationConfig\<close> may be missing, which
  the source tests with \<^verbatim>\<open>in\<close>; a key that is present holds a value, not \<^verbatim>\<open>null\<close>. The other
  keys of the representation are read by no line of the module but \<^verbatim>\<open>str\<close>. In the working
  list an entry is \<open>None\<close> once \<^verbatim>\<open>.clear()\<close> has emptied it.
\<close>

record exec_state =
  ex_id :: string
  ex_providerId :: "string option"
  ex_displayName :: "string option"
  ex_requirement :: requirement
  ex_level :: int
  ex_index :: int
  ex_authenticationConfig :: "auth_config option"

subsection \<open>The matcher and the identifier\<close>

text \<open>
  The condition of lines 220-223. \<^verbatim>\<open>and\<close> binds tighter than \<^verbatim>\<open>or\<close>, and the
  parentheses close before the level test. \<^verbatim>\<open>"providerId" in searched_exec\<close> is always
  true; the comparison with a \<^verbatim>\<open>None\<close> of the searched execution is false.
\<close>

definition exec_matches :: "exec_state option \<Rightarrow> new_exec \<Rightarrow> bool" where
  "exec_matches existing_exec searched_exec =
     (case existing_exec of
        None \<Rightarrow> False
      | Some e \<Rightarrow>
          ((ex_providerId e \<noteq> None \<and> ex_providerId e = es_providerId searched_exec) \<or>
           (ex_displayName e \<noteq> None \<and> ex_displayName e = es_displayName searched_exec))
          \<and> ex_level e = ne_level searched_exec)"

fun find_from :: "nat \<Rightarrow> new_exec \<Rightarrow> exec_state option list \<Rightarrow> int" where
  "find_from i searched_exec [] = - 1"
| "find_from i searched_exec (existing_exec # executions) =
     (if exec_matches existing_exec searched_exec then int i
      else find_from (Suc i) searched_exec executions)"

definition find_exec_in_executions :: "new_exec \<Rightarrow> exec_state option list \<Rightarrow> int" where
  "find_exec_in_executions searched_exec executions = find_from 0 searched_exec executions"

text \<open>
  \<^verbatim>\<open>get_identifier\<close>, lines 227-233. In the last branch the format string names the field
  \<^verbatim>\<open>{exec}\<close> while the argument is positional, so \<^verbatim>\<open>str.format\<close> raises \<^verbatim>\<open>KeyError('exec')\<close>
  before the \<^verbatim>\<open>Exception\<close> is built.
\<close>

definition get_identifier :: "'a exec_spec_scheme \<Rightarrow> error + string" where
  "get_identifier execution =
     (case es_providerId execution of
        Some p \<Rightarrow> Inr p
      | None \<Rightarrow>
          (case es_displayName execution of
             Some d \<Rightarrow> Inr d
           | None \<Rightarrow> Inl (KeyError ''exec'')))"

text \<open>
  The identity rule in the words of the specification: same level, and provider kinds
  both present and equal or display names both present and equal.
\<close>

definition identity_rule :: "new_exec \<Rightarrow> exec_state \<Rightarrow> bool" where
  "identity_rule d e =
     (ne_level d = ex_level e \<and>
      ((es_providerId d \<noteq> None \<and> ex_providerId e \<noteq> None \<and>
          es_providerId d = ex_providerId e) \<or>
       (es_displayName d \<noteq> None \<and> ex_displayName e \<noteq> None \<and>
          es_displayName d = ex_displayName e)))"

definition same_entity_at :: "new_exec \<Rightarrow> exec_state option list \<Rightarrow> nat \<Rightarrow> bool" where
  "same_entity_at d es i =
     (i < length es \<and> (case es ! i of None \<Rightarrow> False | Some e \<Rightarrow> identity_rule d e))"


subsection \<open>The Gateway\<close>

text \<open>
  \<^verbatim>\<open>updated_exec\<close> of lines 248-250 and 256-260: a copy of \<^verbatim>\<open>new_exec\<close> without the keys
  \<^verbatim>\<open>flowAlias\<close> and \<^verbatim>\<open>authenticationConfig\<close>.
\<close>

record exec_payload =
  pl_providerId :: "string option"
  pl_displayName :: "string option"
  pl_requirement :: "requirement option"
  pl_index :: "int option"
  pl_level :: int
  pl_id :: "string option"

definition updated_exec :: "new_exec \<Rightarrow> exec_payload" where
  "updated_exec new_exec =
     \<lparr>pl_providerId = es_providerId new_exec, pl_displayName = es_displayName new_exec,
      pl_requirement = es_requirement new_exec, pl_index = es_index new_exec,
      pl_level = ne_level new_exec, pl_id = ne_id new_exec\<rparr>"

text \<open>
  The calls the module makes on \<^verbatim>\<open>kc\<close> (the realm, the same in all of them, is left
  out). All but the first change the remote flow.
\<close>

datatype gateway_call =
    GetExecutionsRepresentation
  | CreateSubflow "string option" string
  | CreateExecution exec_payload string
  | UpdateAuthenticationExecutions string exec_payload
  | AddAuthenticationConfigToExecution string "auth_config option"
  | ChangeExecutionPriority string int
  | DeleteAuthenticationExecution string

fun mutating :: "gateway_call \<Rightarrow> bool" where
  "mutating GetExecutionsRepresentation = False"
| "mutating _ = True"

text \<open>
  \<^verbatim>\<open>KeycloakAPI\<close> is an external collaborator: what it answers is a parameter. The remote
  service is deterministic in the calls it has received: \<open>executions_representation kc h\<close>
  is the list \<^verbatim>\<open>get_executions_representation\<close> returns after the calls \<open>h\<close>, and
  \<open>call_raises kc h c\<close> says whether the call \<open>c\<close>, issued after \<open>h\<close>, raises.
\<close>

record keycloak =
  executions_representation :: "gateway_call list \<Rightarrow> exec_state list"
  call_raises :: "gateway_call list \<Rightarrow> gateway_call \<Rightarrow> bool"

subsection \<open>State of one run\<close>

text \<open>
  \<^verbatim>\<open>before\<close> and \<^verbatim>\<open>after\<close> are concatenations of \<^verbatim>\<open>str(...)\<close> of dictionaries and of
  newlines; each piece is kept as the value that was printed. A line of the report is
  kept as the arguments of its format string.
\<close>

datatype diff_item = StrExisting exec_state | StrNew new_exec | Newline

datatype shown =
    ShownStr string
  | ShownInt int
  | ShownRequirement requirement
  | ShownConfig auth_config

datatype report_line =
    ErrorLine string "string option" string string "shown option" "shown option"
  | MissingExecution string string "string option"
  | ExtraExecution string string int

record state =
  existing_executions :: "exec_state option list"
  levels :: "string \<rightharpoonup> int"
  changed :: bool
  diff_before :: "diff_item list"
  diff_after :: "diff_item list"
  err_msg :: "report_line list"
  calls :: "gateway_call list"

text \<open>
  An exception leaves \<^verbatim>\<open>create_or_update_executions\<close> through the handler of line 387,
  which calls \<^verbatim>\<open>fail_json\<close>: the local variables are lost, the calls already issued are
  not.
\<close>

type_synonym 'a outcome = "(error \<times> gateway_call list) + 'a"

definition py_raise :: "error \<Rightarrow> state \<Rightarrow> 'a outcome" where
  "py_raise e s = Inl (e, calls s)"

definition and_then :: "'a outcome \<Rightarrow> ('a \<Rightarrow> 'b outcome) \<Rightarrow> 'b outcome" where
  "and_then m f = (case m of Inl e \<Rightarrow> Inl e | Inr x \<Rightarrow> f x)"

definition kc_call :: "keycloak \<Rightarrow> gateway_call \<Rightarrow> state \<Rightarrow> state outcome" where
  "kc_call kc c s =
     (if call_raises kc (calls s) c then Inl (RemoteError, calls s @ [c])
      else Inr (s\<lparr>calls := calls s @ [c]\<rparr>))"

definition get_executions_representation ::
    "keycloak \<Rightarrow> state \<Rightarrow> (exec_state list \<times> state) outcome" where
  "get_executions_representation kc s =
     and_then (kc_call kc GetExecutionsRepresentation s)
       (\<lambda>s'. Inr (executions_representation kc (calls s), s'))"

text \<open>Python's \<^verbatim>\<open>xs[i]\<close>: the position read, counting from the end when \<open>i\<close> is negative.\<close>

definition py_index :: "'a list \<Rightarrow> int \<Rightarrow> nat option" where
  "py_index xs i =
     (if 0 \<le> i \<and> i < int (length xs) then Some (nat i)
      else if i < 0 \<and> - int (length xs) \<le> i then Some (nat (int (length xs) + i))
      else None)"

definition add_error_line ::
    "report_line list \<Rightarrow> string \<Rightarrow> string \<Rightarrow> string \<Rightarrow> string option \<Rightarrow>
     shown option \<Rightarrow> shown option \<Rightarrow> report_line list" where
  "add_error_line err_msg_lines msg flow exec_name subflow expected actual =
     err_msg_lines @ [ErrorLine flow subflow exec_name msg expected actual]"

subsection \<open>Comparing a desired execution with the matched one\<close>

text \<open>
  The dictionaries as lists of items, for the loops that run over their keys:
  \<^verbatim>\<open>new_exec\<close> with its keys in the order of the argument spec, then \<^verbatim>\<open>level\<close>, then \<^verbatim>\<open>id\<close>
  once it is stored; an existing execution with the keys it has.
\<close>

datatype py_value =
    PyStr string
  | PyInt int
  | PyRequirement requirement
  | PyConfig auth_config

definition new_exec_items :: "new_exec \<Rightarrow> (string \<times> py_value option) list" where
  "new_exec_items new_exec =
     [(''providerId'', map_option PyStr (es_providerId new_exec)),
      (''displayName'', map_option PyStr (es_displayName new_exec)),
      (''requirement'', map_option PyRequirement (es_requirement new_exec)),
      (''flowAlias'', map_option PyStr (es_flowAlias new_exec)),
      (''authenticationConfig'', map_option PyConfig (es_authenticationConfig new_exec)),
      (''index'', map_option PyInt (es_index new_exec)),
      (''level'', Some (PyInt (ne_level new_exec)))]
     @ (case ne_id new_exec of None \<Rightarrow> [] | Some i \<Rightarrow> [(''id'', Some (PyStr i))])"

definition exec_state_items :: "exec_state \<Rightarrow> (string \<times> py_value) list" where
  "exec_state_items e =
     [(''id'', PyStr (ex_id e)),
      (''requirement'', PyRequirement (ex_requirement e)),
      (''level'', PyInt (ex_level e)),
      (''index'', PyInt (ex_index e))]
     @ (case ex_providerId e of None \<Rightarrow> [] | Some p \<Rightarrow> [(''providerId'', PyStr p)])
     @ (case ex_displayName e of None \<Rightarrow> [] | Some d \<Rightarrow> [(''displayName'', PyStr d)])
     @ (case ex_authenticationConfig e of
          None \<Rightarrow> []
        | Some c \<Rightarrow> [(''authenticationConfig'', PyConfig c)])"

text \<open>Lines 311-314: the keys left out of the comparison.\<close>

definition exclude_key :: "new_exec \<Rightarrow> string list" where
  "exclude_key new_exec =
     [''authenticationConfig'', ''flowAlias'']
     @ map fst (filter (\<lambda>(key, v). v = None) (new_exec_items new_exec))"

text \<open>
  Modelled from the spec: \<^verbatim>\<open>is_struct_included\<close> is imported from
  \<^verbatim>\<open>module_utils/identity/keycloak/keycloak.py\<close>, which is not among the source files.
  The specification reads the call of line 317 as "comparing desired to matched,
  excluding \<^verbatim>\<open>config\<close> and \<^verbatim>\<open>parentFlowAlias\<close>, and excluding any desired field left unset,
  reveals any differing value": the first structure is included in the second when every
  key of the first that is not excluded is a key of the second with an equal value.
\<close>

definition is_struct_included ::
    "(string \<times> py_value option) list \<Rightarrow> (string \<times> py_value) list \<Rightarrow> string list \<Rightarrow> bool" where
  "is_struct_included struct1 struct2 exclude =
     list_all
       (\<lambda>(key, v). key \<in> set exclude \<or>
          (case map_of struct2 key of None \<Rightarrow> False | Some w \<Rightarrow> v = Some w))
       struct1"

text \<open>
  Lines 325-328. The loop runs over the keys of the desired \<^verbatim>\<open>authenticationConfig\<close>
  itself; \<^verbatim>\<open>|=\<close> evaluates its right-hand side for every key, and there, after the two
  guards, \<^verbatim>\<open>existing_exec["authenticationConfig"][key]\<close> raises \<^verbatim>\<open>KeyError\<close> for a key the
  existing configuration does not have.
\<close>

fun config_changed_loop ::
    "auth_config \<Rightarrow> auth_config option \<Rightarrow> bool \<Rightarrow> error + bool" where
  "config_changed_loop [] existing config_changed = Inr config_changed"
| "config_changed_loop ((key, v) # rest) existing config_changed =
     (case v of
        None \<Rightarrow> config_changed_loop rest existing config_changed
      | Some nv \<Rightarrow>
          (case existing of
             None \<Rightarrow> config_changed_loop rest existing config_changed
           | Some existing_config \<Rightarrow>
               (case map_of existing_config key of
                  None \<Rightarrow> Inl (KeyError key)
                | Some w \<Rightarrow>
                    config_changed_loop rest existing
                      (config_changed \<or> \<not> py_eq (Some nv) w))))"

definition config_changed :: "auth_config \<Rightarrow> exec_state \<Rightarrow> error + bool" where
  "config_changed new_config existing_exec =
     config_changed_loop new_config (ex_authenticationConfig existing_exec) False"

subsection \<open>Updating and creating one execution\<close>

text \<open>
  \<^verbatim>\<open>update_authentication_execution(kc, flow_alias_parent, new_exec, realm)\<close>, lines
  255-262, as it is declared.
\<close>

definition update_authentication_execution ::
    "keycloak \<Rightarrow> string \<Rightarrow> new_exec \<Rightarrow> state \<Rightarrow> state outcome" where
  "update_authentication_execution kc flow_alias_parent new_exec s =
     (if es_requirement new_exec \<noteq> None
      then kc_call kc (UpdateAuthenticationExecutions flow_alias_parent (updated_exec new_exec)) s
      else Inr s)"

text \<open>
  The three call sites (lines 340, 359 and 368) all read
  \<^verbatim>\<open>update_authentication_execution(kc, flow_alias_parent, new_exec, check_mode, realm)\<close>:
  five positional arguments for a function that declares four parameters. Python raises
  \<^verbatim>\<open>TypeError\<close> at the call and the body above never runs.
\<close>

definition update_authentication_execution_5 ::
    "keycloak \<Rightarrow> string \<Rightarrow> new_exec \<Rightarrow> bool \<Rightarrow> state \<Rightarrow> state outcome" where
  "update_authentication_execution_5 kc flow_alias_parent new_exec check_mode s =
     py_raise TypeError s"

text \<open>\<^verbatim>\<open>create_authentication_execution\<close>, lines 235-253, with its local \<^verbatim>\<open>hasSameName\<close>.\<close>

definition hasSameName :: "new_exec \<Rightarrow> exec_state \<Rightarrow> bool" where
  "hasSameName new_exec other_exec =
     (if ex_providerId other_exec \<noteq> None
      then ex_providerId other_exec = es_providerId new_exec
      else if ex_displayName other_exec \<noteq> None
      then ex_displayName other_exec = es_displayName new_exec
      else False)"

definition create_authentication_execution ::
    "keycloak \<Rightarrow> new_exec \<Rightarrow> string \<Rightarrow> bool \<Rightarrow> state \<Rightarrow> (exec_state \<times> state) outcome" where
  "create_authentication_execution kc new_exec flow_alias_parent isFlow s =
     and_then
       (if isFlow
        then kc_call kc (CreateSubflow (es_displayName new_exec) flow_alias_parent) s
        else kc_call kc (CreateExecution (updated_exec new_exec) flow_alias_parent) s)
       (\<lambda>s1. and_then (get_executions_representation kc s1)
          (\<lambda>(executions, s2).
             (case filter (hasSameName new_exec) executions of
                [] \<Rightarrow> py_raise IndexError s2
              | created # _ \<Rightarrow> Inr (created, s2))))"

subsection \<open>A desired execution that matches an existing one (lines 309-351)\<close>

text \<open>
  In the three definitions below \<open>exec_name\<close> is \<^verbatim>\<open>get_identifier(new_exec)\<close>, which line
  303 has already computed for the same \<^verbatim>\<open>providerId\<close> and \<^verbatim>\<open>displayName\<close>.
\<close>

text \<open>Lines 322-336: the configuration.\<close>

definition push_config ::
    "keycloak \<Rightarrow> string \<Rightarrow> bool \<Rightarrow> string \<Rightarrow> new_exec \<Rightarrow> exec_state \<Rightarrow> state \<Rightarrow> state outcome" where
  "push_config kc alias check_mode exec_name new_exec existing_exec s =
     (case es_authenticationConfig new_exec of
        None \<Rightarrow> Inr s
      | Some new_config \<Rightarrow>
          (case config_changed new_config existing_exec of
             Inl e \<Rightarrow> py_raise e s
           | Inr differs \<Rightarrow>
               if differs then
                 (let s1 = s\<lparr>diff_before := diff_before s @ [StrExisting existing_exec]\<rparr> in
                  and_then
                    (if \<not> check_mode then
                       (case ne_id new_exec of
                          None \<Rightarrow> py_raise (KeyError ''id'') s1
                        | Some i \<Rightarrow>
                            kc_call kc (AddAuthenticationConfigToExecution i (Some new_config)) s1)
                     else Inr s1)
                    (\<lambda>s2.
                       (case ex_authenticationConfig existing_exec of
                          None \<Rightarrow> py_raise (KeyError ''authenticationConfig'') s2
                        | Some existing_config \<Rightarrow>
                            Inr (s2\<lparr>diff_after := diff_after s2 @ [StrNew new_exec],
                                    changed := True,
                                    err_msg :=
                                      add_error_line (err_msg s2) ''wrong config'' alias exec_name
                                        None (Some (ShownConfig new_config))
                                        (Some (ShownConfig existing_config))\<rparr>))))
               else Inr s))"

text \<open>Lines 337-343: the attributes. Line 343 assigns \<^verbatim>\<open>after\<close>, it does not append.\<close>

definition push_requirement ::
    "keycloak \<Rightarrow> string \<Rightarrow> bool \<Rightarrow> string \<Rightarrow> string \<Rightarrow> new_exec \<Rightarrow> exec_state \<Rightarrow> state
     \<Rightarrow> state outcome" where
  "push_requirement kc alias check_mode flow_alias_parent exec_name new_exec existing_exec s =
     (let s1 = s\<lparr>changed := True\<rparr> in
      and_then
        (if \<not> check_mode
         then update_authentication_execution_5 kc flow_alias_parent new_exec check_mode s1
         else Inr s1)
        (\<lambda>s2.
           Inr (s2\<lparr>err_msg :=
                     add_error_line (err_msg s2) ''wrong requirement'' alias exec_name None
                       (map_option ShownRequirement (es_requirement new_exec))
                       (Some (ShownRequirement (ex_requirement existing_exec))),
                   diff_after := [StrNew new_exec]\<rparr>)))"

text \<open>Lines 344-349: the position.\<close>

definition push_priority ::
    "keycloak \<Rightarrow> string \<Rightarrow> bool \<Rightarrow> string \<Rightarrow> int \<Rightarrow> int \<Rightarrow> new_exec \<Rightarrow> state \<Rightarrow> state outcome" where
  "push_priority kc alias check_mode exec_name exec_index new_exec_index new_exec s =
     (let s1 = s\<lparr>changed := True\<rparr> in
      and_then
        (if \<not> check_mode then
           (case ne_id new_exec of
              None \<Rightarrow> py_raise (KeyError ''id'') s1
            | Some i \<Rightarrow> kc_call kc (ChangeExecutionPriority i (exec_index - new_exec_index)) s1)
         else Inr s1)
        (\<lambda>s2.
           Inr (s2\<lparr>err_msg :=
                     add_error_line (err_msg s2) ''wrong index'' alias exec_name None
                       (Some (ShownInt new_exec_index)) (Some (ShownInt exec_index))\<rparr>)))"

definition update_existing ::
    "keycloak \<Rightarrow> string \<Rightarrow> bool \<Rightarrow> string \<Rightarrow> int \<Rightarrow> string \<Rightarrow> int \<Rightarrow> new_exec \<Rightarrow> state
     \<Rightarrow> state outcome" where
  "update_existing kc alias check_mode flow_alias_parent new_exec_index exec_name exec_index
       new_exec0 s =
     (case py_index (existing_executions s) exec_index of
        None \<Rightarrow> py_raise IndexError s
      | Some pos \<Rightarrow>
          (case existing_executions s ! pos of
             None \<Rightarrow> py_raise (KeyError ''id'') s
           | Some existing_exec \<Rightarrow>
               (let exec_need_changes =
                      (\<not> is_struct_included (new_exec_items new_exec0)
                           (exec_state_items existing_exec) (exclude_key new_exec0)
                       \<or> exec_index \<noteq> new_exec_index);
                    s1 = (if exec_need_changes
                          then s\<lparr>diff_before := diff_before s @ [StrExisting existing_exec]\<rparr> else s);
                    new_exec = new_exec0\<lparr>ne_id := Some (ex_id existing_exec)\<rparr>
                in
                and_then (push_config kc alias check_mode exec_name new_exec existing_exec s1)
                  (\<lambda>s2.
                     and_then
                       (if exec_need_changes
                        then push_requirement kc alias check_mode flow_alias_parent exec_name
                               new_exec existing_exec s2
                        else Inr s2)
                       (\<lambda>s3.
                          and_then
                            (if exec_index \<noteq> new_exec_index
                             then push_priority kc alias check_mode exec_name exec_index
                                    new_exec_index new_exec s3
                             else Inr s3)
                            (\<lambda>s4.
                               Inr (s4\<lparr>existing_executions :=
                                         (existing_executions s4)[pos := None]\<rparr>)))))))"

subsection \<open>A desired execution that matches nothing (lines 352-375)\<close>

text \<open>
  Lines 354-364: a subflow stands at the desired index under another name. The third
  conjunct of line 354 reads the key \<^verbatim>\<open>displayName\<close> of the entry at \<^verbatim>\<open>new_exec_index\<close>,
  and raises for an entry that was cleared or has no such key.
\<close>

definition rename_subflow ::
    "keycloak \<Rightarrow> string \<Rightarrow> bool \<Rightarrow> string \<Rightarrow> string \<Rightarrow> nat \<Rightarrow> exec_state \<Rightarrow> string \<Rightarrow> new_exec
     \<Rightarrow> state \<Rightarrow> (new_exec \<times> state) outcome" where
  "rename_subflow kc alias check_mode flow_alias_parent exec_name pos existing_exec actual_name
       new_exec0 s =
     (let new_exec = new_exec0\<lparr>ne_id := Some (ex_id existing_exec)\<rparr> in
      and_then
        (if \<not> check_mode
         then update_authentication_execution_5 kc flow_alias_parent new_exec check_mode s
         else Inr s)
        (\<lambda>s1.
           Inr (new_exec,
                s1\<lparr>err_msg :=
                      add_error_line (err_msg s1) ''wrong flow name'' alias exec_name None
                        (Some (ShownStr exec_name)) (Some (ShownStr actual_name)),
                    existing_executions := (existing_executions s1)[pos := None]\<rparr>)))"

text \<open>Lines 365-369: creation, outside check mode.\<close>

definition create_new ::
    "keycloak \<Rightarrow> bool \<Rightarrow> string \<Rightarrow> bool \<Rightarrow> new_exec \<Rightarrow> state \<Rightarrow> (new_exec \<times> state) outcome" where
  "create_new kc check_mode flow_alias_parent isFlow new_exec0 s =
     and_then (create_authentication_execution kc new_exec0 flow_alias_parent isFlow s)
       (\<lambda>(created, s1).
          (let new_exec = new_exec0\<lparr>ne_id := Some (ex_id created)\<rparr> in
           and_then
             (update_authentication_execution_5 kc flow_alias_parent new_exec check_mode s1)
             (\<lambda>s2.
                and_then
                  (kc_call kc
                     (AddAuthenticationConfigToExecution (ex_id created)
                        (es_authenticationConfig new_exec)) s2)
                  (\<lambda>s3. Inr (new_exec, s3)))))"

definition create_missing ::
    "keycloak \<Rightarrow> string \<Rightarrow> bool \<Rightarrow> string \<Rightarrow> int \<Rightarrow> string \<Rightarrow> new_exec \<Rightarrow> state
     \<Rightarrow> state outcome" where
  "create_missing kc alias check_mode flow_alias_parent new_exec_index exec_name new_exec0 s =
     (let isFlow = (es_displayName new_exec0 \<noteq> None \<and> es_providerId new_exec0 = None) in
      and_then
        (if isFlow \<and> new_exec_index < int (length (existing_executions s)) then
           (case py_index (existing_executions s) new_exec_index of
              None \<Rightarrow> py_raise IndexError s
            | Some pos \<Rightarrow>
                (case existing_executions s ! pos of
                   None \<Rightarrow> py_raise (KeyError ''displayName'') s
                 | Some existing_exec \<Rightarrow>
                     (case ex_displayName existing_exec of
                        None \<Rightarrow> py_raise (KeyError ''displayName'') s
                      | Some actual_name \<Rightarrow>
                          rename_subflow kc alias check_mode flow_alias_parent exec_name pos
                            existing_exec actual_name new_exec0 s)))
         else if \<not> check_mode
         then create_new kc check_mode flow_alias_parent isFlow new_exec0 s
         else Inr (new_exec0, s))
        (\<lambda>(new_exec, s1).
           Inr (s1\<lparr>changed := True,
                   diff_after := diff_after s1 @ [StrNew new_exec, Newline],
                   err_msg :=
                     err_msg s1 @ [MissingExecution alias exec_name (es_flowAlias new_exec)]\<rparr>)))"

subsection \<open>The loop over the desired executions (lines 293-375)\<close>

text \<open>
  Lines 303-304. The dictionary display evaluates its key, \<^verbatim>\<open>get_identifier(new_exec)\<close>,
  before its value, \<^verbatim>\<open>levels[new_exec["flowAlias"]] + 1\<close> or \<^verbatim>\<open>0\<close> (the order of Python 3.5
  and later; it only decides which of the two \<^verbatim>\<open>KeyError\<close>s a node with both defects
  raises). The level stored in \<^verbatim>\<open>new_exec\<close> is the one just registered under the
  identifier.
\<close>

definition register_level ::
    "(string \<rightharpoonup> int) \<Rightarrow> exec_spec \<Rightarrow> error + (string \<times> (string \<rightharpoonup> int) \<times> new_exec)" where
  "register_level lv spec =
     (case get_identifier spec of
        Inl e \<Rightarrow> Inl e
      | Inr identifier \<Rightarrow>
          (case es_flowAlias spec of
             None \<Rightarrow> Inr (identifier, lv(identifier \<mapsto> 0), with_level spec 0)
           | Some parent \<Rightarrow>
               (case lv parent of
                  None \<Rightarrow> Inl (KeyError parent)
                | Some parent_level \<Rightarrow>
                    Inr (identifier, lv(identifier \<mapsto> parent_level + 1),
                         with_level spec (parent_level + 1)))))"

definition process_exec ::
    "keycloak \<Rightarrow> string \<Rightarrow> bool \<Rightarrow> nat \<Rightarrow> exec_spec \<Rightarrow> state \<Rightarrow> state outcome" where
  "process_exec kc alias check_mode position spec s =
     (let new_exec_index = (case es_index spec of Some i \<Rightarrow> i | None \<Rightarrow> int position);
          flow_alias_parent = (case es_flowAlias spec of Some a \<Rightarrow> a | None \<Rightarrow> alias)
      in
      case register_level (levels s) spec of
        Inl e \<Rightarrow> py_raise e s
      | Inr (exec_name, levels', new_exec) \<Rightarrow>
          (let s1 = s\<lparr>levels := levels'\<rparr>;
               exec_index = find_exec_in_executions new_exec (existing_executions s1)
           in
           if exec_index \<noteq> - 1 then
             update_existing kc alias check_mode flow_alias_parent new_exec_index exec_name
               exec_index new_exec s1
           else if es_providerId new_exec \<noteq> None \<or> es_displayName new_exec \<noteq> None then
             create_missing kc alias check_mode flow_alias_parent new_exec_index exec_name
               new_exec s1
           else Inr s1))"

fun process_executions ::
    "keycloak \<Rightarrow> string \<Rightarrow> bool \<Rightarrow> nat \<Rightarrow> exec_spec list \<Rightarrow> state \<Rightarrow> state outcome" where
  "process_executions kc alias check_mode position [] s = Inr s"
| "process_executions kc alias check_mode position (spec # rest) s =
     and_then (process_exec kc alias check_mode position spec s)
       (process_executions kc alias check_mode (Suc position) rest)"

subsection \<open>Extra executions (lines 377-384) and the whole run\<close>

fun remove_extra ::
    "keycloak \<Rightarrow> string \<Rightarrow> bool \<Rightarrow> exec_state option list \<Rightarrow> state \<Rightarrow> state outcome" where
  "remove_extra kc alias check_mode [] s = Inr s"
| "remove_extra kc alias check_mode (None # rest) s = remove_extra kc alias check_mode rest s"
| "remove_extra kc alias check_mode (Some existing_exec # rest) s =
     (case ex_displayName existing_exec of
        None \<Rightarrow> py_raise (KeyError ''displayName'') s
      | Some name \<Rightarrow>
          (let s1 = s\<lparr>changed := True,
                      diff_before := diff_before s @ [StrExisting existing_exec, Newline],
                      err_msg :=
                        err_msg s @ [ExtraExecution alias name (ex_level existing_exec)]\<rparr>
           in
           and_then
             (if \<not> check_mode
              then kc_call kc (DeleteAuthenticationExecution (ex_id existing_exec)) s1
              else Inr s1)
             (remove_extra kc alias check_mode rest)))"

text \<open>
  \<^verbatim>\<open>config\<close> as \<^verbatim>\<open>main\<close> builds it: the key \<^verbatim>\<open>authenticationExecutions\<close> is always present,
  with the value \<^verbatim>\<open>None\<close> when the task gives no executions.
\<close>

record flow_config =
  cf_alias :: string
  cf_authenticationExecutions :: "exec_spec list option"

definition initial_state :: "gateway_call list \<Rightarrow> state" where
  "initial_state history =
     \<lparr>existing_executions = [], levels = Map.empty, changed = False, diff_before = [],
      diff_after = [], err_msg = [], calls = history\<rparr>"

text \<open>
  \<^verbatim>\<open>create_or_update_executions(kc, config, check_mode, realm)\<close>. \<open>history\<close> is the list of
  calls the remote service has received before the run. The result \<open>Inr s\<close> stands for the
  returned triple \<open>(changed s, (diff_before s, diff_after s), err_msg s)\<close>, with the calls issued in
  \<open>calls s\<close>; \<open>Inl (e, cs)\<close> stands for \<^verbatim>\<open>fail_json\<close> after the exception \<open>e\<close>, the calls
  \<open>cs\<close> having been issued.
\<close>

definition create_or_update_executions ::
    "keycloak \<Rightarrow> flow_config \<Rightarrow> bool \<Rightarrow> gateway_call list \<Rightarrow> state outcome" where
  "create_or_update_executions kc config check_mode history =
     and_then (get_executions_representation kc (initial_state history))
       (\<lambda>(existing, s1).
          and_then
            (process_executions kc (cf_alias config) check_mode 0
               (case cf_authenticationExecutions config of None \<Rightarrow> [] | Some xs \<Rightarrow> xs)
               (s1\<lparr>existing_executions := map Some existing\<rparr>))
            (\<lambda>s2. remove_extra kc (cf_alias config) check_mode (existing_executions s2) s2))"

subsection \<open>Notions used in the statements\<close>

text \<open>
  \<open>wp m Q E\<close>: the outcome \<open>m\<close> satisfies \<open>Q\<close> when it is a result and \<open>E\<close> when it is an
  error with the calls issued before it.
\<close>

definition wp ::
    "'a outcome \<Rightarrow> ('a \<Rightarrow> bool) \<Rightarrow> (error \<Rightarrow> gateway_call list \<Rightarrow> bool) \<Rightarrow> bool" where
  "wp m Q E = (case m of Inr x \<Rightarrow> Q x | Inl (e, cs) \<Rightarrow> E e cs)"

text \<open>
  A step from \<open>s\<close> to \<open>s'\<close> is quiet when it keeps \<open>changed\<close> once set and, as long as
  \<open>changed\<close> is unset, has added no report line and issued no call.
\<close>

definition quiet :: "state \<Rightarrow> state \<Rightarrow> bool" where
  "quiet s s' =
     ((changed s \<longrightarrow> changed s') \<and>
      (\<not> changed s' \<longrightarrow> err_msg s' = err_msg s \<and> calls s' = calls s))"

text \<open>The identifiers line 303 registers for a list of desired executions.\<close>

fun identifiers :: "exec_spec list \<Rightarrow> string list" where
  "identifiers [] = []"
| "identifiers (p # ps) =
     (case get_identifier p of Inl e \<Rightarrow> identifiers ps | Inr n \<Rightarrow> n # identifiers ps)"

text \<open>The state in which the loop starts, after the fetch of line 291.\<close>

definition after_fetch :: "keycloak \<Rightarrow> gateway_call list \<Rightarrow> state" where
  "after_fetch kc history =
     (initial_state history)
       \<lparr>existing_executions := map Some (executions_representation kc history),
        calls := history @ [GetExecutionsRepresentation]\<rparr>"

definition desired_executions :: "flow_config \<Rightarrow> exec_spec list" where
  "desired_executions config =
     (case cf_authenticationExecutions config of None \<Rightarrow> [] | Some xs \<Rightarrow> xs)"

text \<open>
  The specification's wording of \<open>configChanged\<close>: a declared value "differs from (or is
  absent in) the matched entry's config".
\<close>

definition differs_at :: "auth_config \<Rightarrow> string \<times> cfg_value option \<Rightarrow> bool" where
  "differs_at existing_config item =
     (case snd item of
        None \<Rightarrow> False
      | Some nv \<Rightarrow>
          (case map_of existing_config (fst item) of
             None \<Rightarrow> True
           | Some w \<Rightarrow> \<not> py_eq (Some nv) w))"

text \<open>The claim read literally: an existing entry without a configuration has no key.\<close>

definition claimed_config_changed :: "auth_config option \<Rightarrow> auth_config option \<Rightarrow> bool" where
  "claimed_config_changed desired existing =
     (case desired of
        None \<Rightarrow> False
      | Some new_config \<Rightarrow>
          list_ex (differs_at (case existing of None \<Rightarrow> [] | Some c \<Rightarrow> c)) new_config)"

definition declared_keys_present :: "auth_config \<Rightarrow> auth_config \<Rightarrow> bool" where
  "declared_keys_present new_config existing_config =
     list_all (\<lambda>item. snd item = None \<or> map_of existing_config (fst item) \<noteq> None) new_config"

text \<open>The calls that push attributes or a position.\<close>

fun updates_or_reorders :: "gateway_call \<Rightarrow> bool" where
  "updates_or_reorders (UpdateAuthenticationExecutions parent payload) = True"
| "updates_or_reorders (ChangeExecutionPriority i delta) = True"
| "updates_or_reorders _ = False"

definition clean :: "gateway_call list \<Rightarrow> bool" where
  "clean cs = list_all (\<lambda>c. \<not> updates_or_reorders c) cs"

text \<open>
  The entries of the working list that no desired execution has consumed, the report
  line of one of them, and the two conditions under which lines 377-384 run to their end:
  every such entry has a \<^verbatim>\<open>displayName\<close>, and the remote service accepts the deletions.
\<close>

fun orphans :: "exec_state option list \<Rightarrow> exec_state list" where
  "orphans [] = []"
| "orphans (None # es) = orphans es"
| "orphans (Some e # es) = e # orphans es"

definition extra_line :: "string \<Rightarrow> exec_state \<Rightarrow> report_line" where
  "extra_line flow e =
     ExtraExecution flow (case ex_displayName e of None \<Rightarrow> [] | Some d \<Rightarrow> d) (ex_level e)"

definition named :: "exec_state \<Rightarrow> bool" where
  "named e = (ex_displayName e \<noteq> None)"

definition deletes_succeed :: "keycloak \<Rightarrow> bool" where
  "deletes_succeed kc = (\<forall>h i. \<not> call_raises kc h (DeleteAuthenticationExecution i))"

text \<open>
  The desired lists whose declared indices are the positions of the list: line 294-295
  replace the position by \<^verbatim>\<open>new_exec["index"]\<close> when it is declared, and here it is either
  not declared or equal to the position.
\<close>

fun positional_from :: "nat \<Rightarrow> exec_spec list \<Rightarrow> bool" where
  "positional_from i [] = True"
| "positional_from i (spec # rest) =
     ((case es_index spec of None \<Rightarrow> True | Some j \<Rightarrow> j = int i) \<and>
      positional_from (Suc i) rest)"

text \<open>
  A desired \<^verbatim>\<open>authenticationConfig\<close> is a dictionary: in its association list no key
  occurs twice.
\<close>

definition config_keys_distinct :: "exec_spec \<Rightarrow> bool" where
  "config_keys_distinct spec =
     (case es_authenticationConfig spec of None \<Rightarrow> True | Some c \<Rightarrow> distinct (map fst c))"

text \<open>
  Modelled from the spec: the remote flow belongs to the identity service, which is not
  among the source files. The specification gives the life cycle of an existing execution
  as "mutated by update/config/reorder calls; removed when the Reconciler issues a delete",
  with the Gateway operations \<^verbatim>\<open>setExecutionConfig(executionId, config)\<close> and
  \<^verbatim>\<open>deleteExecution(executionId)\<close>: a configuration push stores the pushed configuration
  at the execution with that \<^verbatim>\<open>id\<close>, a deletion removes the execution with that \<^verbatim>\<open>id\<close>.
  The identifier the remote service assigns to a stored configuration is left out. The
  fetch changes nothing; the remaining calls (create, update, priority) are issued by no
  run that returns outside check mode, and are left without effect.
\<close>

fun apply_call :: "gateway_call \<Rightarrow> exec_state list \<Rightarrow> exec_state list" where
  "apply_call (AddAuthenticationConfigToExecution i c) xs =
     map (\<lambda>e. if ex_id e = i then e\<lparr>ex_authenticationConfig := c\<rparr> else e) xs"
| "apply_call (DeleteAuthenticationExecution i) xs = filter (\<lambda>e. ex_id e \<noteq> i) xs"
| "apply_call c xs = xs"

text \<open>
  What lines 322-336 do outside check mode for a matched entry: the call they issue, and
  the entry with the pushed configuration stored; then the same along a desired list and
  the entries it matches in order.
\<close>

definition config_push :: "auth_config option \<Rightarrow> exec_state \<Rightarrow> gateway_call list" where
  "config_push desired e =
     (case desired of
        None \<Rightarrow> []
      | Some c \<Rightarrow>
          if config_changed c e = Inr True
          then [AddAuthenticationConfigToExecution (ex_id e) (Some c)] else [])"

definition settled :: "exec_spec \<Rightarrow> exec_state \<Rightarrow> exec_state" where
  "settled spec e =
     (case es_authenticationConfig spec of
        None \<Rightarrow> e
      | Some c \<Rightarrow>
          if config_changed c e = Inr True then e\<lparr>ex_authenticationConfig := Some c\<rparr> else e)"

fun settle :: "exec_spec list \<Rightarrow> exec_state list \<Rightarrow> exec_state list" where
  "settle (spec # specs) (e # es) = settled spec e # settle specs es"
| "settle specs es = []"

fun pushes :: "exec_spec list \<Rightarrow> exec_state list \<Rightarrow> gateway_call list" where
  "pushes (spec # specs) (e # es) =
     config_push (es_authenticationConfig spec) e @ pushes specs es"
| "pushes specs es = []"

subsection \<open>Concrete flows and remote services\<close>

text \<open>An existing execution and a desired one with the fields most examples share.\<close>

definition existing_execution ::
    "string \<Rightarrow> string option \<Rightarrow> string option \<Rightarrow> requirement \<Rightarrow> int \<Rightarrow> int \<Rightarrow> exec_state" where
  "existing_execution i p d r l n =
     \<lparr>ex_id = i, ex_providerId = p, ex_displayName = d, ex_requirement = r, ex_level = l,
      ex_index = n, ex_authenticationConfig = None\<rparr>"

definition desired_execution ::
    "string option \<Rightarrow> string option \<Rightarrow> requirement option \<Rightarrow> string option \<Rightarrow> exec_spec" where
  "desired_execution p d r parent =
     \<lparr>es_providerId = p, es_displayName = d, es_requirement = r, es_flowAlias = parent,
      es_authenticationConfig = None, es_index = None\<rparr>"

text \<open>A remote service that answers every fetch with the same list and never raises.\<close>

definition static_keycloak :: "exec_state list \<Rightarrow> keycloak" where
  "static_keycloak executions =
     \<lparr>executions_representation = (\<lambda>h. executions), call_raises = (\<lambda>h c. False)\<rparr>"

text \<open>The inputs of the examples below.\<close>

definition entry_a :: exec_state where
  "entry_a = existing_execution ''a'' (Some ''auth-a'') (Some ''A'') REQUIRED 0 0"

definition entry_x :: exec_state where
  "entry_x = existing_execution ''x'' (Some ''auth-x'') (Some ''X'') REQUIRED 0 0"

definition desired_a :: exec_spec where
  "desired_a = desired_execution (Some ''auth-a'') None None None"

definition flow_of :: "exec_spec list \<Rightarrow> flow_config" where
  "flow_of specs = \<lparr>cf_alias = ''flow'', cf_authenticationExecutions = Some specs\<rparr>"

definition remote_after_delete :: keycloak where
  "remote_after_delete =
     \<lparr>executions_representation =
        (\<lambda>h. if DeleteAuthenticationExecution ''x'' \<in> set h then [entry_a]
             else [entry_x, entry_a\<lparr>ex_index := 1\<rparr>]),
      call_raises = (\<lambda>h c. False)\<rparr>"

definition desired_config :: auth_config where
  "desired_config =
     [(''alias'', Some (CfgStr ''c'')),
      (''config'', Some (CfgDict [(''a'', ''2''), (''b'', ''3'')]))]"

definition existing_config :: auth_config where
  "existing_config =
     [(''id'', Some (CfgStr ''77'')), (''alias'', Some (CfgStr ''c'')),
      (''config'', Some (CfgDict [(''a'', ''1'')]))]"

definition existing_config_same :: auth_config where
  "existing_config_same =
     [(''id'', Some (CfgStr ''77'')), (''alias'', Some (CfgStr ''c'')),
      (''config'', Some (CfgDict [(''b'', ''3''), (''a'', ''2'')]))]"

text \<open>
  A remote service that holds the given executions, applies every call it receives and
  never raises.
\<close>

definition keycloak_holding :: "exec_state list \<Rightarrow> keycloak" where
  "keycloak_holding xs =
     \<lparr>executions_representation = (\<lambda>h. fold apply_call h xs), call_raises = (\<lambda>h c. False)\<rparr>"

text \<open>
  An execution that has a \<^verbatim>\<open>providerId\<close> and no \<^verbatim>\<open>displayName\<close>, and the execution and
  the desired node of the examples with a configuration.
\<close>

definition entry_y :: exec_state where
  "entry_y = existing_execution ''y'' (Some ''auth-y'') None REQUIRED 0 1"

definition entry_a_configured :: exec_state where
  "entry_a_configured = entry_a\<lparr>ex_authenticationConfig := Some existing_config\<rparr>"

definition desired_a_configured :: exec_spec where
  "desired_a_configured = desired_a\<lparr>es_authenticationConfig := Some desired_config\<rparr>"

section \<open>Properties\<close>

subsection \<open>Outcomes\<close>

lemma and_then_Inr [simp]: "and_then (Inr x) f = f x"
  by (simp add: and_then_def)

lemma and_then_Inl [simp]: "and_then (Inl e) f = Inl e"
  by (simp add: and_then_def)

lemma and_then_eq_Inr: "(and_then m f = Inr y) = (\<exists>x. m = Inr x \<and> f x = Inr y)"
  by (cases m) simp_all

lemma wp_Inr [simp]: "wp (Inr x) Q E = Q x"
  by (simp add: wp_def)

lemma wp_Inl [simp]: "wp (Inl (e, cs)) Q E = E e cs"
  by (simp add: wp_def)

lemma wp_py_raise [simp]: "wp (py_raise e s) Q E = E e (calls s)"
  by (simp add: py_raise_def)

lemma wp_and_then [simp]: "wp (and_then m f) Q E = wp m (\<lambda>x. wp (f x) Q E) E"
  by (cases m) (auto simp: wp_def)

lemma wp_kc_call [simp]:
  "wp (kc_call kc c s) Q E =
     (if call_raises kc (calls s) c then E RemoteError (calls s @ [c])
      else Q (s\<lparr>calls := calls s @ [c]\<rparr>))"
  by (simp add: kc_call_def)

lemma wp_mono:
  "wp m Q E \<Longrightarrow> (\<And>x. Q x \<Longrightarrow> Q' x) \<Longrightarrow> (\<And>e cs. E e cs \<Longrightarrow> E' e cs) \<Longrightarrow> wp m Q' E'"
  by (cases m) (auto simp: wp_def)

lemma wp_InrD: "wp m Q E \<Longrightarrow> m = Inr x \<Longrightarrow> Q x"
  by simp

lemma wp_InlD: "wp m Q E \<Longrightarrow> m = Inl (e, cs) \<Longrightarrow> E e cs"
  by simp

lemma wpI: "(\<And>x. m = Inr x \<Longrightarrow> Q x) \<Longrightarrow> (\<And>e cs. m = Inl (e, cs) \<Longrightarrow> E e cs) \<Longrightarrow> wp m Q E"
  by (cases m) (auto simp: wp_def)

subsection \<open>Check mode issues no call\<close>

lemma push_config_check:
  "wp (push_config kc fl True n ne ee s) (\<lambda>s'. calls s' = calls s) (\<lambda>e cs. cs = calls s)"
  by (simp add: push_config_def Let_def split: option.splits sum.splits)

lemma push_requirement_check:
  "wp (push_requirement kc fl True fap n ne ee s) (\<lambda>s'. calls s' = calls s) (\<lambda>e cs. cs = calls s)"
  by (simp add: push_requirement_def Let_def)

lemma push_priority_check:
  "wp (push_priority kc fl True n i j ne s) (\<lambda>s'. calls s' = calls s) (\<lambda>e cs. cs = calls s)"
  by (simp add: push_priority_def Let_def)

lemma update_existing_check:
  "wp (update_existing kc fl True fap nei n ei ne s) (\<lambda>s'. calls s' = calls s) (\<lambda>e cs. cs = calls s)"
  unfolding update_existing_def Let_def
  by (auto split: option.splits
      intro!: wp_mono [OF push_config_check] wp_mono [OF push_requirement_check]
        wp_mono [OF push_priority_check])

lemma rename_subflow_check:
  "wp (rename_subflow kc fl True fap n pos ee an ne s) (\<lambda>(ne', s'). calls s' = calls s) (\<lambda>e cs. cs = calls s)"
  by (simp add: rename_subflow_def Let_def)

lemma create_missing_check:
  "wp (create_missing kc fl True fap nei n ne s) (\<lambda>s'. calls s' = calls s) (\<lambda>e cs. cs = calls s)"
  unfolding create_missing_def Let_def
  by (auto split: option.splits intro!: wp_mono [OF rename_subflow_check])

lemma process_exec_check:
  "wp (process_exec kc fl True i spec s) (\<lambda>s'. calls s' = calls s) (\<lambda>e cs. cs = calls s)"
  unfolding process_exec_def Let_def
  by (auto split: option.splits sum.splits prod.splits
      intro!: wp_mono [OF update_existing_check] wp_mono [OF create_missing_check])

lemma process_executions_check:
  "wp (process_executions kc fl True i specs s) (\<lambda>s'. calls s' = calls s) (\<lambda>e cs. cs = calls s)"
proof (induction specs arbitrary: i s)
  case Nil
  then show ?case by simp
next
  case (Cons spec specs)
  show ?case
    by (auto intro!: wp_mono [OF process_exec_check] wp_mono [OF Cons.IH])
qed

lemma remove_extra_check:
  "wp (remove_extra kc fl True es s) (\<lambda>s'. calls s' = calls s) (\<lambda>e cs. cs = calls s)"
proof (induction es arbitrary: s)
  case Nil
  then show ?case by simp
next
  case (Cons e es)
  show ?case
    by (cases e) (auto simp: Let_def split: option.splits intro!: wp_mono [OF Cons.IH])
qed

lemma create_or_update_executions_check:
  "wp (create_or_update_executions kc config True h)
     (\<lambda>s'. calls s' = h @ [GetExecutionsRepresentation])
     (\<lambda>e cs. cs = h @ [GetExecutionsRepresentation])"
  unfolding create_or_update_executions_def get_executions_representation_def
  by (auto simp: initial_state_def
      intro!: wp_mono [OF process_executions_check] wp_mono [OF remove_extra_check])


lemma calls_update_last [simp]:
  "(s\<lparr>calls := c\<rparr>)\<lparr>existing_executions := a1\<rparr> = (s\<lparr>existing_executions := a1\<rparr>)\<lparr>calls := c\<rparr>"
  "(s\<lparr>calls := c\<rparr>)\<lparr>levels := a2\<rparr> = (s\<lparr>levels := a2\<rparr>)\<lparr>calls := c\<rparr>"
  "(s\<lparr>calls := c\<rparr>)\<lparr>changed := a3\<rparr> = (s\<lparr>changed := a3\<rparr>)\<lparr>calls := c\<rparr>"
  "(s\<lparr>calls := c\<rparr>)\<lparr>diff_before := a4\<rparr> = (s\<lparr>diff_before := a4\<rparr>)\<lparr>calls := c\<rparr>"
  "(s\<lparr>calls := c\<rparr>)\<lparr>diff_after := a5\<rparr> = (s\<lparr>diff_after := a5\<rparr>)\<lparr>calls := c\<rparr>"
  "(s\<lparr>calls := c\<rparr>)\<lparr>err_msg := a6\<rparr> = (s\<lparr>err_msg := a6\<rparr>)\<lparr>calls := c\<rparr>"
  by simp_all

subsection \<open>A successful step is mirrored by check mode\<close>

lemma push_config_sim:
  "wp (push_config kc fl cm n ne ee s)
     (\<lambda>s'. push_config kc2 fl True n ne ee (s\<lparr>calls := c\<rparr>) = Inr (s'\<lparr>calls := c\<rparr>))
     (\<lambda>e cs. True)"
  by (simp add: push_config_def Let_def split: option.splits sum.splits)

lemma push_requirement_sim:
  "wp (push_requirement kc fl cm fap n ne ee s)
     (\<lambda>s'. push_requirement kc2 fl True fap n ne ee (s\<lparr>calls := c\<rparr>) = Inr (s'\<lparr>calls := c\<rparr>))
     (\<lambda>e cs. True)"
  by (simp add: push_requirement_def update_authentication_execution_5_def Let_def)

lemma push_priority_sim:
  "wp (push_priority kc fl cm n i j ne s)
     (\<lambda>s'. push_priority kc2 fl True n i j ne (s\<lparr>calls := c\<rparr>) = Inr (s'\<lparr>calls := c\<rparr>))
     (\<lambda>e cs. True)"
  by (simp add: push_priority_def Let_def split: option.splits)

lemma update_existing_sim:
  "wp (update_existing kc fl cm fap nei n ei ne s)
     (\<lambda>s'. update_existing kc2 fl True fap nei n ei ne (s\<lparr>calls := c\<rparr>) = Inr (s'\<lparr>calls := c\<rparr>))
     (\<lambda>e cs. True)"
  unfolding update_existing_def Let_def
  by (auto split: option.splits
      intro!: wp_mono [OF push_config_sim [where ?kc2.0 = kc2 and c = c]]
        wp_mono [OF push_requirement_sim [where ?kc2.0 = kc2 and c = c]]
        wp_mono [OF push_priority_sim [where ?kc2.0 = kc2 and c = c]])

lemma rename_subflow_sim:
  "wp (rename_subflow kc fl cm fap n pos ee an ne s)
     (\<lambda>(ne', s'). rename_subflow kc2 fl True fap n pos ee an ne (s\<lparr>calls := c\<rparr>)
          = Inr (ne', s'\<lparr>calls := c\<rparr>))
     (\<lambda>e cs. True)"
  by (simp add: rename_subflow_def update_authentication_execution_5_def Let_def)

lemma create_new_fails:
  "wp (create_new kc cm fap isFlow ne s) (\<lambda>x. False) (\<lambda>e cs. True)"
  by (simp add: create_new_def create_authentication_execution_def
      get_executions_representation_def update_authentication_execution_5_def Let_def
      split: list.splits)

lemma create_missing_sim:
  "wp (create_missing kc fl cm fap nei n ne s)
     (\<lambda>s'. create_missing kc2 fl True fap nei n ne (s\<lparr>calls := c\<rparr>) = Inr (s'\<lparr>calls := c\<rparr>))
     (\<lambda>e cs. True)"
  unfolding create_missing_def Let_def
  by (auto split: option.splits
      intro!: wp_mono [OF rename_subflow_sim [where ?kc2.0 = kc2 and c = c]]
        wp_mono [OF create_new_fails])

lemma process_exec_sim:
  "wp (process_exec kc fl cm i spec s)
     (\<lambda>s'. process_exec kc2 fl True i spec (s\<lparr>calls := c\<rparr>) = Inr (s'\<lparr>calls := c\<rparr>))
     (\<lambda>e cs. True)"
  unfolding process_exec_def Let_def
  by (auto split: option.splits sum.splits prod.splits
      intro!: wp_mono [OF update_existing_sim [where ?kc2.0 = kc2 and c = c]]
        wp_mono [OF create_missing_sim [where ?kc2.0 = kc2 and c = c]])

lemma process_executions_sim:
  "wp (process_executions kc fl cm i specs s)
     (\<lambda>s'. process_executions kc2 fl True i specs (s\<lparr>calls := c\<rparr>) = Inr (s'\<lparr>calls := c\<rparr>))
     (\<lambda>e cs. True)"
proof (induction specs arbitrary: i s)
  case Nil
  then show ?case by simp
next
  case (Cons spec specs)
  show ?case
    by (auto intro!: wp_mono [OF process_exec_sim [where ?kc2.0 = kc2 and c = c]]
        wp_mono [OF Cons.IH])
qed

lemma remove_extra_sim:
  "wp (remove_extra kc fl cm es s)
     (\<lambda>s'. remove_extra kc2 fl True es (s\<lparr>calls := c\<rparr>) = Inr (s'\<lparr>calls := c\<rparr>))
     (\<lambda>e cs. True)"
proof (induction es arbitrary: s cm)
  case Nil
  then show ?case by simp
next
  case (Cons e es)
  show ?case
    by (cases e) (auto simp: Let_def split: option.splits intro!: wp_mono [OF Cons.IH])
qed


subsection \<open>Steps that leave \<open>changed\<close> unset\<close>

lemma push_config_quiet:
  "wp (push_config kc fl cm n ne ee s)
     (\<lambda>s'. quiet s s' \<and>
        (\<not> changed s' \<longrightarrow>
           (\<forall>kc2 cm2 c. push_config kc2 fl cm2 n ne ee (s\<lparr>calls := c\<rparr>) = Inr (s'\<lparr>calls := c\<rparr>))))
     (\<lambda>e cs. True)"
  by (simp add: push_config_def quiet_def Let_def split: option.splits sum.splits)

lemma push_requirement_quiet:
  "wp (push_requirement kc fl cm fap n ne ee s) (\<lambda>s'. changed s') (\<lambda>e cs. True)"
  by (simp add: push_requirement_def update_authentication_execution_5_def Let_def)

lemma push_priority_quiet:
  "wp (push_priority kc fl cm n i j ne s) (\<lambda>s'. changed s') (\<lambda>e cs. True)"
  by (simp add: push_priority_def Let_def split: option.splits)

lemma update_existing_quiet:
  "wp (update_existing kc fl cm fap nei n ei ne s)
     (\<lambda>s'. quiet s s' \<and>
        (\<not> changed s' \<longrightarrow>
           (\<forall>kc2 cm2 c. update_existing kc2 fl cm2 fap nei n ei ne (s\<lparr>calls := c\<rparr>)
              = Inr (s'\<lparr>calls := c\<rparr>))))
     (\<lambda>e cs. True)"
  unfolding update_existing_def Let_def
  by (auto simp: quiet_def split: option.splits
      intro!: wp_mono [OF push_config_quiet]
        wp_mono [OF push_requirement_quiet]
        wp_mono [OF push_priority_quiet])

lemma create_missing_quiet:
  "wp (create_missing kc fl cm fap nei n ne s) (\<lambda>s'. changed s') (\<lambda>e cs. True)"
  unfolding create_missing_def Let_def
  by (auto simp: wp_def and_then_def split: option.splits sum.splits prod.splits)

lemma process_exec_quiet:
  "wp (process_exec kc fl cm i spec s)
     (\<lambda>s'. quiet s s' \<and>
        (\<not> changed s' \<longrightarrow>
           (\<forall>kc2 cm2 c. process_exec kc2 fl cm2 i spec (s\<lparr>calls := c\<rparr>) = Inr (s'\<lparr>calls := c\<rparr>))))
     (\<lambda>e cs. True)"
  unfolding process_exec_def Let_def
  by (auto simp: quiet_def split: option.splits sum.splits prod.splits
      intro!: wp_mono [OF update_existing_quiet] wp_mono [OF create_missing_quiet])

lemma process_executions_quiet:
  "wp (process_executions kc fl cm i specs s)
     (\<lambda>s'. quiet s s' \<and>
        (\<not> changed s' \<longrightarrow>
           (\<forall>kc2 cm2 c. process_executions kc2 fl cm2 i specs (s\<lparr>calls := c\<rparr>)
              = Inr (s'\<lparr>calls := c\<rparr>))))
     (\<lambda>e cs. True)"
proof (induction specs arbitrary: i s)
  case Nil
  then show ?case by (simp add: quiet_def)
next
  case (Cons spec specs)
  show ?case
    by (auto simp: quiet_def intro!: wp_mono [OF process_exec_quiet] wp_mono [OF Cons.IH])
qed

lemma remove_extra_quiet:
  "wp (remove_extra kc fl cm es s)
     (\<lambda>s'. quiet s s' \<and>
        (\<not> changed s' \<longrightarrow>
           (\<forall>kc2 cm2 c. remove_extra kc2 fl cm2 es (s\<lparr>calls := c\<rparr>) = Inr (s'\<lparr>calls := c\<rparr>))))
     (\<lambda>e cs. True)"
proof (induction es arbitrary: s cm)
  case Nil
  then show ?case by (simp add: quiet_def)
next
  case (Cons e es)
  show ?case
    by (cases e)
       (auto simp: Let_def quiet_def split: option.splits intro!: wp_mono [OF Cons.IH])
qed


subsection \<open>Splitting the loop; the registered levels\<close>

lemma and_then_assoc: "and_then (and_then m f) g = and_then m (\<lambda>x. and_then (f x) g)"
  by (cases m) simp_all

lemma process_executions_append:
  "process_executions kc fl cm i (pre @ post) s =
     and_then (process_executions kc fl cm i pre s)
       (process_executions kc fl cm (i + length pre) post)"
proof (induction pre arbitrary: i s)
  case Nil
  then show ?case by simp
next
  case (Cons p pre)
  show ?case
    by (cases "process_exec kc fl cm i p s") (simp_all add: Cons.IH)
qed

lemma process_exec_no_identifier:
  "es_providerId x = None \<Longrightarrow> es_displayName x = None \<Longrightarrow>
   process_exec kc fl cm i x s = Inl (KeyError ''exec'', calls s)"
  by (simp add: process_exec_def register_level_def get_identifier_def py_raise_def)

lemma process_exec_unresolved_parent:
  "get_identifier x = Inr n \<Longrightarrow> es_flowAlias x = Some a \<Longrightarrow> levels s a = None \<Longrightarrow>
   process_exec kc fl cm i x s = Inl (KeyError a, calls s)"
  by (simp add: process_exec_def register_level_def py_raise_def)

lemma push_config_levels:
  "wp (push_config kc fl cm n ne ee s) (\<lambda>s'. levels s' = levels s) (\<lambda>e cs. True)"
  by (simp add: push_config_def Let_def split: option.splits sum.splits)

lemma push_requirement_levels:
  "wp (push_requirement kc fl cm fap n ne ee s) (\<lambda>s'. levels s' = levels s) (\<lambda>e cs. True)"
  by (simp add: push_requirement_def update_authentication_execution_5_def Let_def)

lemma push_priority_levels:
  "wp (push_priority kc fl cm n i j ne s) (\<lambda>s'. levels s' = levels s) (\<lambda>e cs. True)"
  by (simp add: push_priority_def Let_def split: option.splits)

lemma update_existing_levels:
  "wp (update_existing kc fl cm fap nei n ei ne s) (\<lambda>s'. levels s' = levels s) (\<lambda>e cs. True)"
  unfolding update_existing_def Let_def
  by (auto split: option.splits
      intro!: wp_mono [OF push_config_levels] wp_mono [OF push_requirement_levels]
        wp_mono [OF push_priority_levels])

lemma rename_subflow_levels:
  "wp (rename_subflow kc fl cm fap n pos ee an ne s) (\<lambda>(ne', s'). levels s' = levels s)
     (\<lambda>e cs. True)"
  by (simp add: rename_subflow_def update_authentication_execution_5_def Let_def)

lemma create_missing_levels:
  "wp (create_missing kc fl cm fap nei n ne s) (\<lambda>s'. levels s' = levels s) (\<lambda>e cs. True)"
  unfolding create_missing_def Let_def
  by (auto split: option.splits
      intro!: wp_mono [OF rename_subflow_levels] wp_mono [OF create_new_fails])

lemma process_exec_levels:
  "wp (process_exec kc fl cm i spec s)
     (\<lambda>s'. \<exists>n. get_identifier spec = Inr n \<and> dom (levels s') = insert n (dom (levels s)))
     (\<lambda>e cs. True)"
  unfolding process_exec_def Let_def register_level_def
  by (auto split: option.splits sum.splits prod.splits
      intro!: wp_mono [OF update_existing_levels] wp_mono [OF create_missing_levels])


lemma process_executions_levels:
  "wp (process_executions kc fl cm i specs s)
     (\<lambda>s'. dom (levels s') = dom (levels s) \<union> set (identifiers specs))
     (\<lambda>e cs. True)"
proof (induction specs arbitrary: i s)
  case Nil
  then show ?case by simp
next
  case (Cons spec specs)
  have "wp (process_exec kc fl cm i spec s)
      (\<lambda>x. wp (process_executions kc fl cm (Suc i) specs x)
         (\<lambda>s'. dom (levels s') = dom (levels s) \<union> set (identifiers (spec # specs)))
         (\<lambda>e cs. True))
      (\<lambda>e cs. True)"
  proof (rule wp_mono [OF process_exec_levels])
    fix x :: state
    assume "\<exists>n. get_identifier spec = Inr n \<and> dom (levels x) = insert n (dom (levels s))"
    then obtain n where n: "get_identifier spec = Inr n"
      and x: "dom (levels x) = insert n (dom (levels s))" by blast
    show "wp (process_executions kc fl cm (Suc i) specs x)
        (\<lambda>s'. dom (levels s') = dom (levels s) \<union> set (identifiers (spec # specs)))
        (\<lambda>e cs. True)"
    proof (rule wp_mono [OF Cons.IH])
      fix s' :: state
      assume "dom (levels s') = dom (levels x) \<union> set (identifiers specs)"
      then show "dom (levels s') = dom (levels s) \<union> set (identifiers (spec # specs))"
        by (simp add: x n)
    qed simp
  qed simp
  then show ?case by simp
qed


lemma loop_stops_at:
  assumes "\<And>s'. process_exec kc fl cm (i + length pre) x s' = Inl (e, calls s')"
  shows "process_executions kc fl cm i (pre @ x # post) s \<noteq> Inr r"
    and "process_executions kc fl cm i pre s = Inr s' \<Longrightarrow>
      process_executions kc fl cm i (pre @ x # post) s = Inl (e, calls s')"
proof -
  have split: "process_executions kc fl cm i (pre @ x # post) s =
      and_then (process_executions kc fl cm i pre s)
        (process_executions kc fl cm (i + length pre) (x # post))"
    by (rule process_executions_append)
  show "process_executions kc fl cm i (pre @ x # post) s \<noteq> Inr r"
    unfolding split
    by (cases "process_executions kc fl cm i pre s") (simp_all add: assms)
  show "process_executions kc fl cm i (pre @ x # post) s = Inl (e, calls s')"
    if "process_executions kc fl cm i pre s = Inr s'"
    unfolding split using that by (simp add: assms)
qed

subsection \<open>The whole run\<close>

lemma run_unfold:
  "create_or_update_executions kc config cm h =
     (if call_raises kc h GetExecutionsRepresentation
      then Inl (RemoteError, h @ [GetExecutionsRepresentation])
      else and_then
        (process_executions kc (cf_alias config) cm 0 (desired_executions config)
           (after_fetch kc h))
        (\<lambda>s2. remove_extra kc (cf_alias config) cm (existing_executions s2) s2))"
  by (simp add: create_or_update_executions_def get_executions_representation_def
      kc_call_def initial_state_def after_fetch_def desired_executions_def)

lemma calls_after_fetch [simp]: "calls (after_fetch kc h) = h @ [GetExecutionsRepresentation]"
  by (simp add: after_fetch_def)

lemma after_fetch_calls_update:
  "executions_representation kc2 h2 = executions_representation kc h \<Longrightarrow>
   (after_fetch kc h)\<lparr>calls := h2 @ [GetExecutionsRepresentation]\<rparr> = after_fetch kc2 h2"
  by (simp add: after_fetch_def initial_state_def)

lemma run_sim:
  "wp (create_or_update_executions kc config cm h)
     (\<lambda>s'. create_or_update_executions kc config True h
         = Inr (s'\<lparr>calls := h @ [GetExecutionsRepresentation]\<rparr>))
     (\<lambda>e cs. True)"
proof (cases "call_raises kc h GetExecutionsRepresentation")
  case True
  then show ?thesis by (simp add: run_unfold)
next
  case False
  have same: "(after_fetch kc h)\<lparr>calls := h @ [GetExecutionsRepresentation]\<rparr> = after_fetch kc h"
    by (simp add: after_fetch_def)
  show ?thesis
    unfolding run_unfold using False
    by (auto simp: same
        intro!: wp_mono [OF process_executions_sim
            [where ?kc2.0 = kc and c = "h @ [GetExecutionsRepresentation]"]]
          wp_mono [OF remove_extra_sim
            [where ?kc2.0 = kc and c = "h @ [GetExecutionsRepresentation]"]])
qed

lemma run_quiet:
  "wp (create_or_update_executions kc config cm h)
     (\<lambda>s'. \<not> changed s' \<longrightarrow>
        err_msg s' = [] \<and> calls s' = h @ [GetExecutionsRepresentation] \<and>
        (\<forall>kc2 cm2 h2.
           executions_representation kc2 h2 = executions_representation kc h \<longrightarrow>
           \<not> call_raises kc2 h2 GetExecutionsRepresentation \<longrightarrow>
           create_or_update_executions kc2 config cm2 h2
             = Inr (s'\<lparr>calls := h2 @ [GetExecutionsRepresentation]\<rparr>)))
     (\<lambda>e cs. True)"
proof (rule wpI)
  fix r assume r: "create_or_update_executions kc config cm h = Inr r"
  define fl where "fl = cf_alias config"
  define ds where "ds = desired_executions config"
  from r obtain s2 where
    loop: "process_executions kc fl cm 0 ds (after_fetch kc h) = Inr s2" and
    extra: "remove_extra kc fl cm (existing_executions s2) s2 = Inr r"
    by (auto simp: run_unfold and_then_eq_Inr fl_def ds_def split: if_splits)
  show "\<not> changed r \<longrightarrow>
      err_msg r = [] \<and> calls r = h @ [GetExecutionsRepresentation] \<and>
      (\<forall>kc2 cm2 h2.
         executions_representation kc2 h2 = executions_representation kc h \<longrightarrow>
         \<not> call_raises kc2 h2 GetExecutionsRepresentation \<longrightarrow>
         create_or_update_executions kc2 config cm2 h2
           = Inr (r\<lparr>calls := h2 @ [GetExecutionsRepresentation]\<rparr>))"
  proof
    assume nc: "\<not> changed r"
    from wp_InrD [OF remove_extra_quiet extra] nc
    have q2: "quiet s2 r"
      and e2: "\<And>kc2 cm2 c. remove_extra kc2 fl cm2 (existing_executions s2) (s2\<lparr>calls := c\<rparr>)
          = Inr (r\<lparr>calls := c\<rparr>)"
      by auto
    from q2 nc have nc2: "\<not> changed s2" by (auto simp: quiet_def)
    from wp_InrD [OF process_executions_quiet loop] nc2
    have q1: "quiet (after_fetch kc h) s2"
      and e1: "\<And>kc2 cm2 c. process_executions kc2 fl cm2 0 ds ((after_fetch kc h)\<lparr>calls := c\<rparr>)
          = Inr (s2\<lparr>calls := c\<rparr>)"
      by auto
    have start: "err_msg (after_fetch kc h) = []"
      by (simp add: after_fetch_def initial_state_def)
    have report: "err_msg r = []"
      using q1 q2 nc nc2 start by (simp add: quiet_def)
    have issued: "calls r = h @ [GetExecutionsRepresentation]"
      using q1 q2 nc nc2 by (simp add: quiet_def)
    have again: "create_or_update_executions kc2 config cm2 h2
        = Inr (r\<lparr>calls := h2 @ [GetExecutionsRepresentation]\<rparr>)"
      if same: "executions_representation kc2 h2 = executions_representation kc h"
        and nr: "\<not> call_raises kc2 h2 GetExecutionsRepresentation" for kc2 cm2 h2
    proof -
      have "process_executions kc2 fl cm2 0 ds (after_fetch kc2 h2)
          = Inr (s2\<lparr>calls := h2 @ [GetExecutionsRepresentation]\<rparr>)"
        using e1 [of kc2 cm2 "h2 @ [GetExecutionsRepresentation]"]
        by (simp add: after_fetch_calls_update [OF same])
      then show ?thesis
        using nr e2 [of kc2 cm2 "h2 @ [GetExecutionsRepresentation]"]
        by (simp add: run_unfold fl_def ds_def)
    qed
    from report issued again show "err_msg r = [] \<and> calls r = h @ [GetExecutionsRepresentation] \<and>
      (\<forall>kc2 cm2 h2.
         executions_representation kc2 h2 = executions_representation kc h \<longrightarrow>
         \<not> call_raises kc2 h2 GetExecutionsRepresentation \<longrightarrow>
         create_or_update_executions kc2 config cm2 h2
           = Inr (r\<lparr>calls := h2 @ [GetExecutionsRepresentation]\<rparr>))"
      by blast
  qed
qed simp

subsection \<open>No run pushes attributes or a position\<close>

lemma clean_simps [simp]:
  "clean [] = True"
  "clean (c # cs) = (\<not> updates_or_reorders c \<and> clean cs)"
  "clean (cs @ ds) = (clean cs \<and> clean ds)"
  by (auto simp: clean_def)

lemma push_config_clean:
  "clean (calls s) \<Longrightarrow>
   wp (push_config kc fl cm n ne ee s) (\<lambda>s'. clean (calls s')) (\<lambda>e cs. clean cs)"
  by (simp add: push_config_def Let_def split: option.splits sum.splits)

lemma push_requirement_clean:
  "wp (push_requirement kc fl cm fap n ne ee s) (\<lambda>s'. cm \<and> calls s' = calls s)
     (\<lambda>e cs. cs = calls s)"
  by (simp add: push_requirement_def update_authentication_execution_5_def Let_def)

lemma update_existing_clean:
  "clean (calls s) \<Longrightarrow>
   wp (update_existing kc fl cm fap nei n ei ne s) (\<lambda>s'. clean (calls s')) (\<lambda>e cs. clean cs)"
  unfolding update_existing_def Let_def
  by (auto split: option.splits
      intro!: wp_mono [OF push_config_clean] wp_mono [OF push_requirement_clean]
        wp_mono [OF push_priority_check])

lemma rename_subflow_clean:
  "clean (calls s) \<Longrightarrow>
   wp (rename_subflow kc fl cm fap n pos ee an ne s) (\<lambda>(ne', s'). clean (calls s'))
     (\<lambda>e cs. clean cs)"
  by (simp add: rename_subflow_def update_authentication_execution_5_def Let_def)

lemma create_new_clean:
  "clean (calls s) \<Longrightarrow>
   wp (create_new kc cm fap isFlow ne s) (\<lambda>(ne', s'). clean (calls s')) (\<lambda>e cs. clean cs)"
  by (simp add: create_new_def create_authentication_execution_def
      get_executions_representation_def update_authentication_execution_5_def Let_def
      split: list.splits)

lemma create_missing_clean:
  "clean (calls s) \<Longrightarrow>
   wp (create_missing kc fl cm fap nei n ne s) (\<lambda>s'. clean (calls s')) (\<lambda>e cs. clean cs)"
  unfolding create_missing_def Let_def
  by (auto split: option.splits
      intro!: wp_mono [OF rename_subflow_clean] wp_mono [OF create_new_clean])

lemma process_exec_clean:
  "clean (calls s) \<Longrightarrow>
   wp (process_exec kc fl cm i spec s) (\<lambda>s'. clean (calls s')) (\<lambda>e cs. clean cs)"
  unfolding process_exec_def Let_def
  by (auto split: option.splits sum.splits prod.splits
      intro!: wp_mono [OF update_existing_clean] wp_mono [OF create_missing_clean])

lemma process_executions_clean:
  "clean (calls s) \<Longrightarrow>
   wp (process_executions kc fl cm i specs s) (\<lambda>s'. clean (calls s')) (\<lambda>e cs. clean cs)"
proof (induction specs arbitrary: i s)
  case Nil
  then show ?case by simp
next
  case (Cons spec specs)
  show ?case
    using Cons.prems
    by (auto intro!: wp_mono [OF process_exec_clean] wp_mono [OF Cons.IH])
qed

lemma remove_extra_clean:
  "clean (calls s) \<Longrightarrow>
   wp (remove_extra kc fl cm es s) (\<lambda>s'. clean (calls s')) (\<lambda>e cs. clean cs)"
proof (induction es arbitrary: s cm)
  case Nil
  then show ?case by simp
next
  case (Cons e es)
  show ?case
    using Cons.prems
    by (cases e) (auto simp: Let_def split: option.splits intro!: wp_mono [OF Cons.IH])
qed

lemma run_clean:
  "clean h \<Longrightarrow>
   wp (create_or_update_executions kc config cm h) (\<lambda>s'. clean (calls s')) (\<lambda>e cs. clean cs)"
  unfolding run_unfold
  by (auto intro!: wp_mono [OF process_executions_clean] wp_mono [OF remove_extra_clean])

subsection \<open>The configuration comparison\<close>

lemma config_changed_loop_no_existing: "config_changed_loop cfg None acc = Inr acc"
  by (induction cfg arbitrary: acc) (auto split: option.splits)

lemma config_changed_loop_present:
  "declared_keys_present cfg ec \<Longrightarrow>
   config_changed_loop cfg (Some ec) acc = Inr (acc \<or> list_ex (differs_at ec) cfg)"
proof (induction cfg arbitrary: acc)
  case Nil
  then show ?case by simp
next
  case (Cons item cfg)
  obtain k v where item: "item = (k, v)" by (cases item)
  from Cons.prems have rest: "declared_keys_present cfg ec"
    by (simp add: declared_keys_present_def)
  show ?case
  proof (cases v)
    case None
    then show ?thesis using Cons.IH [OF rest] item by (simp add: differs_at_def)
  next
    case (Some nv)
    with Cons.prems item obtain w where w: "map_of ec k = Some w"
      by (auto simp: declared_keys_present_def)
    show ?thesis using Cons.IH [OF rest] item Some w by (auto simp: differs_at_def)
  qed
qed

subsection \<open>Extra executions\<close>

lemma remove_extra_all:
  assumes "list_all named (orphans es)" and "cm \<or> deletes_succeed kc"
  shows "remove_extra kc fl cm es s =
     Inr (s\<lparr>changed := changed s \<or> orphans es \<noteq> [],
            diff_before := diff_before s @ concat (map (\<lambda>e. [StrExisting e, Newline]) (orphans es)),
            err_msg := err_msg s @ map (extra_line fl) (orphans es),
            calls := calls s @
              (if cm then [] else map (\<lambda>e. DeleteAuthenticationExecution (ex_id e)) (orphans es))\<rparr>)"
  using assms
proof (induction es arbitrary: s)
  case Nil
  then show ?case by simp
next
  case (Cons e es)
  show ?case
  proof (cases e)
    case None
    then show ?thesis using Cons by simp
  next
    case (Some x)
    with Cons.prems have "named x" and rest: "list_all named (orphans es)"
      by simp_all
    then obtain d where d: "ex_displayName x = Some d"
      by (auto simp: named_def)
    show ?thesis
      using Some d Cons.IH [OF rest Cons.prems(2)] Cons.prems(2)
      by (auto simp: Let_def kc_call_def extra_line_def deletes_succeed_def)
  qed
qed


subsection \<open>Evaluating a run on concrete inputs\<close>

lemmas run_defs =
  run_unfold after_fetch_def initial_state_def desired_executions_def
  process_exec_def register_level_def get_identifier_def with_level_def
  find_exec_in_executions_def exec_matches_def
  update_existing_def py_index_def is_struct_included_def new_exec_items_def
  exec_state_items_def exclude_key_def
  push_config_def config_changed_def push_requirement_def push_priority_def
  update_authentication_execution_5_def
  create_missing_def rename_subflow_def create_new_def create_authentication_execution_def
  get_executions_representation_def hasSameName_def updated_exec_def
  kc_call_def py_raise_def add_error_line_def Let_def
  existing_execution_def desired_execution_def static_keycloak_def

lemmas example_defs =
  entry_a_def entry_x_def desired_a_def flow_of_def remote_after_delete_def
  desired_config_def existing_config_def existing_config_same_def dict_eq_def
  entry_y_def entry_a_configured_def desired_a_configured_def keycloak_holding_def

subsection \<open>The matcher\<close>

lemma exec_matches_identity_rule: "exec_matches (Some e) d = identity_rule d e"
  by (auto simp: exec_matches_def identity_rule_def)

lemma exec_matches_None: "exec_matches None d = False"
  by (simp add: exec_matches_def)

lemma same_entity_at_Cons_0: "same_entity_at d (a # es) 0 = exec_matches a d"
  by (cases a) (simp_all add: same_entity_at_def exec_matches_identity_rule exec_matches_None)

lemma same_entity_at_Cons_Suc: "same_entity_at d (a # es) (Suc i) = same_entity_at d es i"
  by (simp add: same_entity_at_def)

lemma find_from_range: "find_from k d es = - 1 \<or> int k \<le> find_from k d es"
proof (induction es arbitrary: k)
  case Nil
  then show ?case by simp
next
  case (Cons a es)
  then show ?case using Cons.IH [of "Suc k"] by auto
qed

lemma find_from_first:
  "(find_from k d es = int (k + i)) =
     (same_entity_at d es i \<and> (\<forall>j<i. \<not> same_entity_at d es j))"
proof (induction es arbitrary: k i)
  case Nil
  then show ?case by (simp add: same_entity_at_def)
next
  case (Cons a es)
  show ?case
  proof (cases "exec_matches a d")
    case True
    then show ?thesis
      by (cases i) (auto simp: same_entity_at_Cons_0 same_entity_at_Cons_Suc)
  next
    case False
    show ?thesis
    proof (cases i)
      case 0
      have "find_from (Suc k) d es \<noteq> int k"
        using find_from_range [of "Suc k" d es] by auto
      then show ?thesis using False 0 by (simp add: same_entity_at_Cons_0)
    next
      case (Suc n)
      have "(\<forall>j<Suc n. \<not> same_entity_at d (a # es) j) = (\<forall>j<n. \<not> same_entity_at d es j)"
        using False
        by (auto simp: less_Suc_eq_0_disj same_entity_at_Cons_0 same_entity_at_Cons_Suc)
      then show ?thesis
        using False Suc Cons.IH [of "Suc k" n]
        by (simp add: same_entity_at_Cons_Suc)
    qed
  qed
qed

lemma find_from_none: "(find_from k d es = - 1) = (\<forall>i. \<not> same_entity_at d es i)"
proof (induction es arbitrary: k)
  case Nil
  then show ?case by (simp add: same_entity_at_def)
next
  case (Cons a es)
  have "(\<forall>i. \<not> same_entity_at d (a # es) i) =
      (\<not> exec_matches a d \<and> (\<forall>i. \<not> same_entity_at d es i))"
  proof
    assume h: "\<forall>i. \<not> same_entity_at d (a # es) i"
    have "\<not> same_entity_at d es i" for i
      using h [rule_format, of "Suc i"] by (simp add: same_entity_at_Cons_Suc)
    moreover have "\<not> exec_matches a d"
      using h [rule_format, of 0] by (simp add: same_entity_at_Cons_0)
    ultimately show "\<not> exec_matches a d \<and> (\<forall>i. \<not> same_entity_at d es i)" by blast
  next
    assume h: "\<not> exec_matches a d \<and> (\<forall>i. \<not> same_entity_at d es i)"
    show "\<forall>i. \<not> same_entity_at d (a # es) i"
    proof
      fix i show "\<not> same_entity_at d (a # es) i"
        using h by (cases i) (simp_all add: same_entity_at_Cons_0 same_entity_at_Cons_Suc)
    qed
  qed
  then show ?case using Cons.IH [of "Suc k"] by auto
qed

text \<open>
  C2. For every desired node and every list of existing nodes, the matcher returns the
  first index, in list order, of an entry that satisfies the identity rule (same level,
  and provider kinds both present and equal or display names both present and equal),
  and \<open>- 1\<close> exactly when no entry satisfies it; an entry at another level is no match.
\<close>

theorem find_exec_in_executions_first_identity_match:
  "((find_exec_in_executions d es = - 1) = (\<forall>i. \<not> same_entity_at d es i)) \<and>
   (\<forall>i. (find_exec_in_executions d es = int i) =
          (same_entity_at d es i \<and> (\<forall>j<i. \<not> same_entity_at d es j))) \<and>
   (ex_level e \<noteq> ne_level d \<longrightarrow> find_exec_in_executions d [Some e] = - 1)"
proof -
  have none: "(find_exec_in_executions d es = - 1) = (\<forall>i. \<not> same_entity_at d es i)"
    unfolding find_exec_in_executions_def by (rule find_from_none)
  have first: "(find_exec_in_executions d es = int i) =
      (same_entity_at d es i \<and> (\<forall>j<i. \<not> same_entity_at d es j))" for i
    unfolding find_exec_in_executions_def using find_from_first [of 0 d es i] by simp
  have level: "ex_level e \<noteq> ne_level d \<longrightarrow> find_exec_in_executions d [Some e] = - 1"
    by (simp add: find_exec_in_executions_def exec_matches_def)
  from none first level show ?thesis by blast
qed

theorem find_exec_in_executions_first_identity_match_witness:
  "find_exec_in_executions (with_level (desired_execution (Some ''idp-x'') None None None) 0)
     [Some (existing_execution ''a'' (Some ''idp-x'') (Some ''X'') REQUIRED 1 0),
      None,
      Some (existing_execution ''b'' (Some ''idp-x'') (Some ''X'') REQUIRED 0 1),
      Some (existing_execution ''c'' (Some ''idp-x'') (Some ''X'') REQUIRED 0 2)] = 2 \<and>
   find_exec_in_executions (with_level (desired_execution (Some ''idp-x'') None None None) 1)
     [Some (existing_execution ''b'' (Some ''idp-x'') (Some ''X'') REQUIRED 0 1)] = - 1"
  using find_exec_in_executions_first_identity_match
    [of "with_level (desired_execution (Some ''idp-x'') None None None) 1"
        "[Some (existing_execution ''b'' (Some ''idp-x'') (Some ''X'') REQUIRED 0 1)]"
        "existing_execution ''b'' (Some ''idp-x'') (Some ''X'') REQUIRED 0 1"]
  by (simp add: find_exec_in_executions_def exec_matches_def with_level_def
      desired_execution_def existing_execution_def)

subsection \<open>Idempotence\<close>

text \<open>
  A step that leaves \<open>changed\<close> unset has consumed the entry at the desired index, and an
  entry that remains sets \<open>changed\<close>. So the flow whose only execution declares the index 1
  never reaches \<open>changed = False\<close>, whatever the remote service holds or answers: a match at
  position 1 leaves the entry at position 0 behind.
\<close>

lemma push_config_existing:
  "wp (push_config kc fl cm n ne ee s)
     (\<lambda>s'. existing_executions s' = existing_executions s) (\<lambda>e cs. True)"
  by (simp add: push_config_def Let_def split: option.splits sum.splits)

lemma update_existing_consumes:
  "wp (update_existing kc fl cm fap nei n ei ne s)
     (\<lambda>s'. \<not> changed s' \<longrightarrow>
        ei = nei \<and>
        (\<exists>pos. py_index (existing_executions s) ei = Some pos \<and>
           existing_executions s' = (existing_executions s)[pos := None]))
     (\<lambda>e cs. True)"
  unfolding update_existing_def Let_def
  by (auto split: option.splits
      intro!: wp_mono [OF push_config_existing] wp_mono [OF push_requirement_quiet]
        wp_mono [OF push_priority_quiet])

lemma process_exec_consumes:
  "wp (process_exec kc fl cm i x s)
     (\<lambda>s'. \<not> changed s' \<longrightarrow>
        (\<exists>pos. py_index (existing_executions s)
                 (case es_index x of Some j \<Rightarrow> j | None \<Rightarrow> int i) = Some pos \<and>
           existing_executions s' = (existing_executions s)[pos := None]))
     (\<lambda>e cs. True)"
  unfolding process_exec_def Let_def register_level_def get_identifier_def
  by (auto simp: with_level_def split: option.splits sum.splits prod.splits
      intro!: wp_mono [OF update_existing_consumes] wp_mono [OF create_missing_quiet])

lemma remove_extra_changed:
  "wp (remove_extra kc fl cm es s) (\<lambda>s'. orphans es \<noteq> [] \<longrightarrow> changed s') (\<lambda>e cs. True)"
proof (induction es arbitrary: s cm)
  case Nil
  then show ?case by simp
next
  case (Cons e es)
  show ?case
  proof (cases e)
    case None
    then show ?thesis by (auto intro!: wp_mono [OF Cons.IH])
  next
    case (Some a)
    then show ?thesis
      by (auto simp: Let_def quiet_def split: option.splits
          intro!: wp_mono [OF remove_extra_quiet])
  qed
qed

lemma explicit_index_never_converges:
  assumes "create_or_update_executions kc (flow_of [desired_a\<lparr>es_index := Some 1\<rparr>]) cm h
    = Inr r"
  shows "changed r"
proof (rule ccontr)
  assume nc: "\<not> changed r"
  define x where "x = desired_a\<lparr>es_index := Some 1\<rparr>"
  from assms obtain s2 where
    step: "process_exec kc ''flow'' cm 0 x (after_fetch kc h) = Inr s2" and
    extra: "remove_extra kc ''flow'' cm (existing_executions s2) s2 = Inr r"
    by (auto simp: run_unfold and_then_eq_Inr flow_of_def desired_executions_def x_def
        split: if_splits)
  from wp_InrD [OF remove_extra_quiet extra] nc have nc2: "\<not> changed s2"
    by (auto simp: quiet_def)
  from wp_InrD [OF remove_extra_changed extra] nc
  have none: "orphans (existing_executions s2) = []" by auto
  from wp_InrD [OF process_exec_consumes step] nc2 obtain pos where
    pos: "py_index (existing_executions (after_fetch kc h)) 1 = Some pos" and
    ex2: "existing_executions s2 = (existing_executions (after_fetch kc h))[pos := None]"
    by (auto simp: x_def)
  define xs where "xs = executions_representation kc h"
  have start: "existing_executions (after_fetch kc h) = map Some xs"
    by (simp add: after_fetch_def xs_def)
  from pos have "pos = 1" and "1 < length xs"
    by (auto simp: py_index_def start split: if_splits)
  then obtain a b rest where "xs = a # b # rest"
    by (cases xs; cases "tl xs") auto
  with ex2 start \<open>pos = 1\<close> have "orphans (existing_executions s2) \<noteq> []" by simp
  with none show False by contradiction
qed

text \<open>
  C1, as stated, fails. The desired flow declares one execution with the explicit index 1.
  Against a remote flow that holds an extra execution before it, the first run succeeds
  and deletes the extra one; the execution then stands at position 0, and the second run
  against that state either stops with \<^verbatim>\<open>TypeError\<close> (outside check mode) or reports
  \<open>changed = True\<close> with two report lines (in check mode).
\<close>

theorem second_run_counterexample:
  "create_or_update_executions remote_after_delete
       (flow_of [desired_a\<lparr>es_index := Some 1\<rparr>]) False [] =
     Inr \<lparr>existing_executions = [Some entry_x, None], levels = [''auth-a'' \<mapsto> 0],
          changed = True, diff_before = [StrExisting entry_x, Newline], diff_after = [],
          err_msg = [ExtraExecution ''flow'' ''X'' 0],
          calls = [GetExecutionsRepresentation, DeleteAuthenticationExecution ''x'']\<rparr> \<and>
   create_or_update_executions remote_after_delete
       (flow_of [desired_a\<lparr>es_index := Some 1\<rparr>]) False
       [GetExecutionsRepresentation, DeleteAuthenticationExecution ''x''] =
     Inl (TypeError,
          [GetExecutionsRepresentation, DeleteAuthenticationExecution ''x'',
           GetExecutionsRepresentation]) \<and>
   create_or_update_executions remote_after_delete
       (flow_of [desired_a\<lparr>es_index := Some 1\<rparr>]) True
       [GetExecutionsRepresentation, DeleteAuthenticationExecution ''x''] =
     Inr \<lparr>existing_executions = [None], levels = [''auth-a'' \<mapsto> 0],
          changed = True, diff_before = [StrExisting entry_a],
          diff_after =
            [StrNew ((with_level (desired_a\<lparr>es_index := Some 1\<rparr>) 0)\<lparr>ne_id := Some ''a''\<rparr>)],
          err_msg =
            [ErrorLine ''flow'' None ''auth-a'' ''wrong requirement'' None
               (Some (ShownRequirement REQUIRED)),
             ErrorLine ''flow'' None ''auth-a'' ''wrong index'' (Some (ShownInt 1))
               (Some (ShownInt 0))],
          calls =
            [GetExecutionsRepresentation, DeleteAuthenticationExecution ''x'',
             GetExecutionsRepresentation]\<rparr>"
  by (simp add: run_defs example_defs)

text \<open>
  A run that returns \<open>changed = False\<close> has an empty report and has issued no call but its
  fetch, and every run whose fetch is answered with the same list returns the same result.
\<close>

lemma unchanged_run_is_stable:
  assumes "create_or_update_executions kc config check_mode h = Inr r" and "\<not> changed r"
  shows "err_msg r = [] \<and> calls r = h @ [GetExecutionsRepresentation] \<and>
     (\<forall>kc2 check_mode2 h2.
        executions_representation kc2 h2 = executions_representation kc h \<longrightarrow>
        \<not> call_raises kc2 h2 GetExecutionsRepresentation \<longrightarrow>
        create_or_update_executions kc2 config check_mode2 h2
          = Inr (r\<lparr>calls := h2 @ [GetExecutionsRepresentation]\<rparr>))"
  using run_quiet [of kc config check_mode h] assms by simp

text \<open>
  The matcher on a working list whose first \<open>i\<close> entries are cleared.
\<close>

lemma find_from_cleared: "find_from k d (replicate i None @ ws) = find_from (k + i) d ws"
  by (induction i arbitrary: k) (simp_all add: exec_matches_None)

lemma find_cleared_head:
  "(find_exec_in_executions d (replicate i None @ Some e # ws) = int i) = exec_matches (Some e) d"
  using find_from_range [of "Suc i" d ws]
  by (auto simp: find_exec_in_executions_def find_from_cleared)

lemma find_cleared_only:
  "find_exec_in_executions d (replicate i None) \<noteq> int i"
  using find_from_cleared [of 0 d i "[]"]
  by (simp add: find_exec_in_executions_def)

lemma register_level_new_exec:
  "register_level lv spec = Inr (n, lv', ne) \<Longrightarrow> \<exists>l. ne = with_level spec l"
  by (auto simp: register_level_def split: sum.splits option.splits)

lemma register_level_named:
  "register_level lv spec = Inr (n, lv', ne) \<Longrightarrow>
   es_providerId spec \<noteq> None \<or> es_displayName spec \<noteq> None"
  by (auto simp: register_level_def get_identifier_def split: sum.splits option.splits)

text \<open>
  Outside check mode a step returns only when the desired execution matches the entry at
  its own position and no attribute differs: every other branch reaches the five-argument
  call or a creation, and raises. The only call such a step issues is the configuration
  push.
\<close>

lemma push_config_real:
  "ne_id ne = Some (ex_id ee) \<Longrightarrow>
   wp (push_config kc fl False n ne ee s)
     (\<lambda>s'. existing_executions s' = existing_executions s \<and> levels s' = levels s \<and>
        calls s' = calls s @ config_push (es_authenticationConfig ne) ee \<and>
        (\<forall>c. es_authenticationConfig ne = Some c \<longrightarrow> (\<exists>b. config_changed c ee = Inr b)))
     (\<lambda>e cs. True)"
  by (auto simp: push_config_def config_push_def Let_def split: option.splits sum.splits)

lemma push_requirement_real:
  "wp (push_requirement kc fl False fap n ne ee s) (\<lambda>s'. False) (\<lambda>e cs. True)"
  by (simp add: push_requirement_def update_authentication_execution_5_def Let_def)

lemma update_existing_real:
  "wp (update_existing kc fl False fap nei n ei ne s)
     (\<lambda>s'. ei = nei \<and>
        (\<exists>pos e. py_index (existing_executions s) ei = Some pos \<and>
           existing_executions s ! pos = Some e \<and>
           is_struct_included (new_exec_items ne) (exec_state_items e) (exclude_key ne) \<and>
           (\<forall>c. es_authenticationConfig ne = Some c \<longrightarrow> (\<exists>b. config_changed c e = Inr b)) \<and>
           levels s' = levels s \<and>
           existing_executions s' = (existing_executions s)[pos := None] \<and>
           calls s' = calls s @ config_push (es_authenticationConfig ne) e))
     (\<lambda>e cs. True)"
  unfolding update_existing_def Let_def
  by (auto split: option.splits
      intro!: wp_mono [OF push_config_real] wp_mono [OF push_requirement_real])

lemma rename_subflow_real:
  "wp (rename_subflow kc fl False fap n pos ee an ne s) (\<lambda>x. False) (\<lambda>e cs. True)"
  by (simp add: rename_subflow_def update_authentication_execution_5_def Let_def)

lemma create_missing_real:
  "wp (create_missing kc fl False fap nei n ne s) (\<lambda>s'. False) (\<lambda>e cs. True)"
  unfolding create_missing_def Let_def
  by (auto split: option.splits
      intro!: wp_mono [OF rename_subflow_real] wp_mono [OF create_new_fails])


lemma cleared_nth: "(replicate i None @ x # ws) ! i = x"
  by (simp add: nth_append)

lemma cleared_update: "(replicate i None @ x # ws)[i := None] = replicate (Suc i) None @ ws"
  by (simp add: list_update_append replicate_append_same)

lemma process_exec_real:
  assumes run: "process_exec kc fl False i spec s = Inr s'"
    and idx: "case es_index spec of None \<Rightarrow> True | Some j \<Rightarrow> j = int i"
    and shape: "existing_executions s = replicate i None @ map Some zs"
  shows "\<exists>e zs' n ne.
     zs = e # zs' \<and> register_level (levels s) spec = Inr (n, levels s', ne) \<and>
     exec_matches (Some e) ne \<and>
     is_struct_included (new_exec_items ne) (exec_state_items e) (exclude_key ne) \<and>
     (\<forall>c. es_authenticationConfig spec = Some c \<longrightarrow> (\<exists>b. config_changed c e = Inr b)) \<and>
     existing_executions s' = replicate (Suc i) None @ map Some zs' \<and>
     calls s' = calls s @ config_push (es_authenticationConfig spec) e"
proof -
  have nei: "(case es_index spec of Some j \<Rightarrow> j | None \<Rightarrow> int i) = int i"
    using idx by (simp split: option.splits)
  from run obtain n lv' ne where reg: "register_level (levels s) spec = Inr (n, lv', ne)"
    by (auto simp: process_exec_def Let_def py_raise_def split: sum.splits)
  from register_level_new_exec [OF reg] obtain l where ne: "ne = with_level spec l" ..
  have cfg: "es_authenticationConfig ne = es_authenticationConfig spec"
    by (simp add: ne with_level_def)
  from register_level_named [OF reg]
  have named: "es_providerId ne \<noteq> None \<or> es_displayName ne \<noteq> None"
    by (simp add: ne with_level_def)
  define s1 where "s1 = s\<lparr>levels := lv'\<rparr>"
  define ei where "ei = find_exec_in_executions ne (existing_executions s1)"
  define fap where "fap = (case es_flowAlias spec of Some a \<Rightarrow> a | None \<Rightarrow> fl)"
  have found: "ei \<noteq> - 1"
  proof
    assume "ei = - 1"
    with run reg named have "create_missing kc fl False fap (int i) n ne s1 = Inr s'"
      by (simp add: process_exec_def Let_def nei s1_def ei_def fap_def)
    with create_missing_real [of kc fl fap "int i" n ne s1] show False by simp
  qed
  with run reg have "update_existing kc fl False fap (int i) n ei ne s1 = Inr s'"
    by (simp add: process_exec_def Let_def nei s1_def ei_def fap_def)
  from wp_InrD [OF update_existing_real this] obtain pos e where
    ei: "ei = int i" and
    pos: "py_index (existing_executions s1) ei = Some pos" and
    at: "existing_executions s1 ! pos = Some e" and
    incl: "is_struct_included (new_exec_items ne) (exec_state_items e) (exclude_key ne)" and
    ok: "\<forall>c. es_authenticationConfig ne = Some c \<longrightarrow> (\<exists>b. config_changed c e = Inr b)" and
    lv: "levels s' = levels s1" and
    ex: "existing_executions s' = (existing_executions s1)[pos := None]" and
    cs: "calls s' = calls s1 @ config_push (es_authenticationConfig ne) e"
    by auto
  have ws: "existing_executions s1 = replicate i None @ map Some zs"
    by (simp add: s1_def shape)
  from pos ei have p: "pos = i" and len: "i < length (existing_executions s1)"
    by (auto simp: py_index_def split: if_splits)
  from len ws obtain e' zs' where zs: "zs = e' # zs'"
    by (cases zs) auto
  from at have e': "e' = e" by (simp add: p ws zs cleared_nth)
  have m: "exec_matches (Some e) ne"
    using ei by (simp add: ei_def ws zs e' find_cleared_head)
  have "existing_executions s' = replicate (Suc i) None @ map Some zs'"
    by (simp add: ex p ws zs cleared_update)
  with zs e' reg m incl ok lv cs show ?thesis
    by (simp add: cfg s1_def)
qed

text \<open>The same step against an entry whose configuration needs no push.\<close>

lemma process_exec_settled:
  assumes reg: "register_level (levels t) spec = Inr (n, lv', ne)"
    and idx: "case es_index spec of None \<Rightarrow> True | Some j \<Rightarrow> j = int i"
    and shape: "existing_executions t = replicate i None @ Some e # rest"
    and m: "exec_matches (Some e) ne"
    and incl: "is_struct_included (new_exec_items ne) (exec_state_items e) (exclude_key ne)"
    and same: "\<forall>c. es_authenticationConfig spec = Some c \<longrightarrow> config_changed c e = Inr False"
  shows "process_exec kc fl cm i spec t =
     Inr (t\<lparr>levels := lv', existing_executions := replicate (Suc i) None @ rest\<rparr>)"
proof -
  have nei: "(case es_index spec of Some j \<Rightarrow> j | None \<Rightarrow> int i) = int i"
    using idx by (simp split: option.splits)
  from register_level_new_exec [OF reg] obtain l where ne: "ne = with_level spec l" ..
  have cfg: "es_authenticationConfig ne = es_authenticationConfig spec"
    by (simp add: ne with_level_def)
  have find: "find_exec_in_executions ne (replicate i None @ Some e # rest) = int i"
    using m by (simp add: find_cleared_head)
  have pos: "py_index (replicate i None @ Some e # rest) (int i) = Some i"
    by (simp add: py_index_def)
  have incl': "is_struct_included (new_exec_items ne) (exec_state_items e) (exclude_key ne)"
    by (rule incl)
  have push: "push_config kc fl cm n (ne\<lparr>ne_id := Some (ex_id e)\<rparr>) e s = Inr s" for s
    using same by (simp add: push_config_def cfg split: option.splits)
  show ?thesis
    unfolding process_exec_def update_existing_def Let_def
    by (simp add: reg nei shape find pos cleared_nth cleared_update incl' push
        del: replicate_Suc)
qed


text \<open>
  An entry that holds the pushed configuration compares equal to it, and a push changes
  no field the matcher or the attribute comparison reads.
\<close>

lemma dict_eq_refl: "dict_eq a a"
  by (simp add: dict_eq_def list_all_iff)

lemma cfg_value_eq_refl: "cfg_value_eq v v"
  by (cases v) (simp_all add: dict_eq_refl)

lemma config_changed_loop_same:
  "distinct (map fst c) \<Longrightarrow> set c' \<subseteq> set c \<Longrightarrow> config_changed_loop c' (Some c) acc = Inr acc"
proof (induction c' arbitrary: acc)
  case Nil
  then show ?case by simp
next
  case (Cons item c')
  obtain k v where item: "item = (k, v)" by (cases item)
  from Cons.prems item have look: "map_of c k = Some v" by simp
  from Cons.prems have rest: "set c' \<subseteq> set c" by simp
  show ?case
    using Cons.IH [OF Cons.prems(1) rest]
    by (cases v) (simp_all add: item look cfg_value_eq_refl)
qed

lemma config_changed_settled:
  assumes "es_authenticationConfig spec = Some c" and "distinct (map fst c)"
    and "config_changed c e = Inr b"
  shows "config_changed c (settled spec e) = Inr False"
proof (cases b)
  case True
  with assms show ?thesis
    by (simp add: settled_def config_changed_def config_changed_loop_same)
next
  case False
  with assms show ?thesis by (simp add: settled_def)
qed

lemma settled_fields [simp]:
  "ex_id (settled spec e) = ex_id e"
  "ex_providerId (settled spec e) = ex_providerId e"
  "ex_displayName (settled spec e) = ex_displayName e"
  "ex_requirement (settled spec e) = ex_requirement e"
  "ex_level (settled spec e) = ex_level e"
  "ex_index (settled spec e) = ex_index e"
  by (simp_all add: settled_def split: option.splits)

lemma exec_matches_settled: "exec_matches (Some (settled spec e)) ne = exec_matches (Some e) ne"
  by (simp add: exec_matches_def)

lemma exec_state_items_settled:
  "key \<noteq> ''authenticationConfig'' \<Longrightarrow>
   map_of (exec_state_items (settled spec e)) key = map_of (exec_state_items e) key"
  by (simp add: exec_state_items_def settled_def split: option.splits)

lemma is_struct_included_settled:
  "is_struct_included (new_exec_items ne) (exec_state_items (settled spec e)) (exclude_key ne)
     = is_struct_included (new_exec_items ne) (exec_state_items e) (exclude_key ne)"
proof -
  have excluded: "''authenticationConfig'' \<in> set (exclude_key ne)"
    by (simp add: exclude_key_def)
  have "(case x of (key, v) \<Rightarrow> key \<in> set (exclude_key ne) \<or>
          (case map_of (exec_state_items (settled spec e)) key of
             None \<Rightarrow> False | Some w \<Rightarrow> v = Some w)) =
        (case x of (key, v) \<Rightarrow> key \<in> set (exclude_key ne) \<or>
          (case map_of (exec_state_items e) key of
             None \<Rightarrow> False | Some w \<Rightarrow> v = Some w))" for x
  proof -
    obtain key v where x: "x = (key, v)" by (cases x)
    show ?thesis
      by (cases "key = ''authenticationConfig''")
        (simp_all add: x excluded exec_state_items_settled)
  qed
  then show ?thesis by (simp add: is_struct_included_def list_all_iff)
qed


text \<open>
  The loop of a run that returns consumes the entries in list order, and the same loop
  against the settled entries changes nothing.
\<close>

lemma state_updates_same [simp]:
  "(t::state)\<lparr>levels := levels t, existing_executions := existing_executions t\<rparr> = t"
  by simp

lemma process_executions_settles:
  assumes "process_executions kc fl False i specs s = Inr s'"
    and "positional_from i specs"
    and "list_all config_keys_distinct specs"
    and "existing_executions s = replicate i None @ map Some zs"
  shows "length specs \<le> length zs \<and>
     existing_executions s' = replicate (i + length specs) None @ map Some (drop (length specs) zs) \<and>
     calls s' = calls s @ pushes specs zs \<and>
     (\<forall>kc2 cm2 t rest.
        levels t = levels s \<longrightarrow>
        existing_executions t = replicate i None @ map Some (settle specs zs) @ rest \<longrightarrow>
        process_executions kc2 fl cm2 i specs t =
          Inr (t\<lparr>levels := levels s',
                 existing_executions := replicate (i + length specs) None @ rest\<rparr>))"
  using assms
proof (induction specs arbitrary: i s zs)
  case Nil
  then show ?case by simp
next
  case (Cons spec specs)
  from Cons.prems(1) obtain s1 where
    step: "process_exec kc fl False i spec s = Inr s1" and
    loop: "process_executions kc fl False (Suc i) specs s1 = Inr s'"
    by (auto simp: and_then_eq_Inr)
  from Cons.prems(2) have
    idx: "case es_index spec of None \<Rightarrow> True | Some j \<Rightarrow> j = int i" and
    pos: "positional_from (Suc i) specs"
    by simp_all
  from Cons.prems(3) have
    keys: "config_keys_distinct spec" and keys': "list_all config_keys_distinct specs"
    by simp_all
  from process_exec_real [OF step idx Cons.prems(4)] obtain e zs' n ne where
    zs: "zs = e # zs'" and
    reg: "register_level (levels s) spec = Inr (n, levels s1, ne)" and
    m: "exec_matches (Some e) ne" and
    incl: "is_struct_included (new_exec_items ne) (exec_state_items e) (exclude_key ne)" and
    ok: "\<forall>c. es_authenticationConfig spec = Some c \<longrightarrow> (\<exists>b. config_changed c e = Inr b)" and
    ex1: "existing_executions s1 = replicate (Suc i) None @ map Some zs'" and
    cs1: "calls s1 = calls s @ config_push (es_authenticationConfig spec) e"
    by blast
  note IH = Cons.IH [OF loop pos keys' ex1]
  have same: "\<forall>c. es_authenticationConfig spec = Some c \<longrightarrow>
      config_changed c (settled spec e) = Inr False"
  proof (intro allI impI)
    fix c assume c: "es_authenticationConfig spec = Some c"
    with ok obtain b where "config_changed c e = Inr b" by blast
    moreover from keys c have "distinct (map fst c)"
      by (simp add: config_keys_distinct_def)
    ultimately show "config_changed c (settled spec e) = Inr False"
      using c by (rule_tac config_changed_settled)
  qed
  have second: "process_executions kc2 fl cm2 i (spec # specs) t =
      Inr (t\<lparr>levels := levels s',
             existing_executions := replicate (i + length (spec # specs)) None @ rest\<rparr>)"
    if lv: "levels t = levels s"
      and ex: "existing_executions t =
        replicate i None @ map Some (settle (spec # specs) zs) @ rest"
    for kc2 cm2 t rest
  proof -
    define t1 where "t1 = t\<lparr>levels := levels s1,
        existing_executions := replicate (Suc i) None @ map Some (settle specs zs') @ rest\<rparr>"
    have shape: "existing_executions t =
        replicate i None @ Some (settled spec e) # (map Some (settle specs zs') @ rest)"
      using ex by (simp add: zs)
    have reg': "register_level (levels t) spec = Inr (n, levels s1, ne)"
      using reg by (simp add: lv)
    have "process_exec kc2 fl cm2 i spec t = Inr t1"
      unfolding t1_def
      by (rule process_exec_settled [OF reg' idx shape])
        (simp_all add: m incl same exec_matches_settled is_struct_included_settled)
    moreover have "process_executions kc2 fl cm2 (Suc i) specs t1 =
        Inr (t1\<lparr>levels := levels s',
               existing_executions := replicate (Suc i + length specs) None @ rest\<rparr>)"
      using IH by (simp add: t1_def)
    ultimately show ?thesis by (simp add: t1_def)
  qed
  from IH have "length (spec # specs) \<le> length zs"
    and "existing_executions s' =
      replicate (i + length (spec # specs)) None @ map Some (drop (length (spec # specs)) zs)"
    and "calls s' = calls s @ pushes (spec # specs) zs"
    by (simp_all add: zs cs1)
  with second show ?case by blast
qed

text \<open>The clean-up outside check mode deletes every remaining entry.\<close>

lemma orphans_cleared [simp]: "orphans (replicate i None @ map Some zs) = zs"
proof (induction i)
  case 0
  show ?case by (induction zs) simp_all
next
  case (Suc i)
  then show ?case by simp
qed

lemma remove_extra_cleared: "remove_extra kc fl cm (replicate i None) s = Inr s"
  by (induction i) simp_all

lemma remove_extra_real:
  "remove_extra kc fl False es s = Inr s' \<Longrightarrow>
   levels s' = levels s \<and>
   calls s' = calls s @ map (\<lambda>e. DeleteAuthenticationExecution (ex_id e)) (orphans es)"
proof (induction es arbitrary: s)
  case Nil
  then show ?case by simp
next
  case (Cons a es)
  show ?case
  proof (cases a)
    case None
    with Cons show ?thesis by simp
  next
    case (Some e)
    with Cons.prems obtain d s1 where
      d: "ex_displayName e = Some d" and
      del: "kc_call kc (DeleteAuthenticationExecution (ex_id e))
          (s\<lparr>changed := True,
             diff_before := diff_before s @ [StrExisting e, Newline],
             err_msg := err_msg s @ [ExtraExecution fl d (ex_level e)]\<rparr>) = Inr s1" and
      rest: "remove_extra kc fl False es s1 = Inr s'"
      by (auto simp: Let_def and_then_eq_Inr py_raise_def split: option.splits)
    from del have "levels s1 = levels s"
      and "calls s1 = calls s @ [DeleteAuthenticationExecution (ex_id e)]"
      by (auto simp: kc_call_def split: if_splits)
    with Cons.IH [OF rest] Some show ?thesis by simp
  qed
qed


text \<open>
  Applied to a remote flow with distinct identifiers, the calls of a run that returns
  leave the settled entries and nothing else.
\<close>

lemma store_config_other:
  "\<forall>x\<in>set xs. ex_id x \<noteq> i \<Longrightarrow>
   map (\<lambda>e. if ex_id e = i then e\<lparr>ex_authenticationConfig := c\<rparr> else e) xs = xs"
  by (induction xs) simp_all

lemma delete_other: "\<forall>x\<in>set xs. ex_id x \<noteq> i \<Longrightarrow> filter (\<lambda>e. ex_id e \<noteq> i) xs = xs"
  by (induction xs) simp_all

lemma apply_config_push:
  assumes "distinct (map ex_id (pre @ e # zs))"
  shows "fold apply_call (config_push (es_authenticationConfig spec) e) (pre @ e # zs)
     = pre @ settled spec e # zs"
proof -
  from assms have "\<forall>x\<in>set pre. ex_id x \<noteq> ex_id e" and "\<forall>x\<in>set zs. ex_id x \<noteq> ex_id e"
    by (auto simp: image_iff)
  then show ?thesis
    by (simp add: config_push_def settled_def store_config_other split: option.splits)
qed

lemma apply_pushes:
  "distinct (map ex_id (pre @ zs)) \<Longrightarrow>
   fold apply_call (pushes specs zs) (pre @ zs)
     = pre @ settle specs zs @ drop (length specs) zs"
proof (induction specs zs arbitrary: pre rule: pushes.induct)
  case (1 spec specs e es)
  have "distinct (map ex_id ((pre @ [settled spec e]) @ es))"
    using "1.prems" by simp
  from "1.IH" [OF this] apply_config_push [OF "1.prems"] show ?case by simp
qed simp_all

lemma apply_deletes:
  "distinct (map ex_id (ys @ zs)) \<Longrightarrow>
   fold apply_call (map (\<lambda>e. DeleteAuthenticationExecution (ex_id e)) zs) (ys @ zs) = ys"
proof (induction zs)
  case Nil
  then show ?case by simp
next
  case (Cons z zs)
  from Cons.prems have "\<forall>x\<in>set ys. ex_id x \<noteq> ex_id z" and "\<forall>x\<in>set zs. ex_id x \<noteq> ex_id z"
    and "distinct (map ex_id (ys @ zs))"
    by (auto simp: image_iff)
  with Cons.IH show ?case by (simp add: delete_other)
qed

lemma settle_ids:
  "length specs \<le> length zs \<Longrightarrow> map ex_id (settle specs zs) = map ex_id (take (length specs) zs)"
  by (induction specs zs rule: settle.induct) simp_all

lemma apply_run:
  assumes "distinct (map ex_id xs)" and "length specs \<le> length xs"
  shows "fold apply_call
       (GetExecutionsRepresentation # pushes specs xs @
        map (\<lambda>e. DeleteAuthenticationExecution (ex_id e)) (drop (length specs) xs)) xs
     = settle specs xs"
proof -
  have "map ex_id (settle specs xs @ drop (length specs) xs) = map ex_id xs"
    using assms(2) by (simp add: settle_ids flip: take_map drop_map)
  with assms(1) have "distinct (map ex_id (settle specs xs @ drop (length specs) xs))"
    by simp
  from apply_deletes [OF this] apply_pushes [of "[]" xs specs] assms(1)
  show ?thesis by simp
qed

text \<open>
  C1, amended. Take a desired flow in which every declared index is the position of its
  execution in the list (and every declared configuration is a dictionary), and a remote
  flow whose executions have distinct identifiers. When a run outside check mode returns a
  result, whatever it changed, and the second run fetches the state that run produced (the
  first snapshot with the pushed configurations stored and the deleted executions
  removed), the second run, in either mode, returns \<open>changed = False\<close>, an empty diff and an
  empty report, and issues no call but its fetch.
\<close>

theorem second_run_is_idle:
  assumes flow: "positional_from 0 (desired_executions config)"
    and keys: "list_all config_keys_distinct (desired_executions config)"
    and ids: "distinct (map ex_id (executions_representation kc h))"
    and first: "create_or_update_executions kc config False h = Inr r"
    and produced: "executions_representation kc2 h2 =
        fold apply_call (drop (length h) (calls r)) (executions_representation kc h)"
    and fetch: "\<not> call_raises kc2 h2 GetExecutionsRepresentation"
  shows "create_or_update_executions kc2 config check_mode2 h2 =
     Inr \<lparr>existing_executions = replicate (length (desired_executions config)) None,
          levels = levels r, changed = False, diff_before = [], diff_after = [],
          err_msg = [], calls = h2 @ [GetExecutionsRepresentation]\<rparr>"
proof -
  define fl where "fl = cf_alias config"
  define ds where "ds = desired_executions config"
  define xs where "xs = executions_representation kc h"
  from first obtain s2 where
    loop: "process_executions kc fl False 0 ds (after_fetch kc h) = Inr s2" and
    extra: "remove_extra kc fl False (existing_executions s2) s2 = Inr r"
    by (auto simp: run_unfold and_then_eq_Inr fl_def ds_def split: if_splits)
  have start: "existing_executions (after_fetch kc h) = replicate 0 None @ map Some xs"
    by (simp add: after_fetch_def xs_def)
  from process_executions_settles [OF loop flow [folded ds_def] keys [folded ds_def] start]
  have len: "length ds \<le> length xs"
    and ex2: "existing_executions s2 = replicate (length ds) None @ map Some (drop (length ds) xs)"
    and cs2: "calls s2 = h @ GetExecutionsRepresentation # pushes ds xs"
    and again: "\<And>kc2 cm2 t rest.
        levels t = levels (after_fetch kc h) \<Longrightarrow>
        existing_executions t = replicate 0 None @ map Some (settle ds xs) @ rest \<Longrightarrow>
        process_executions kc2 fl cm2 0 ds t =
          Inr (t\<lparr>levels := levels s2,
                 existing_executions := replicate (0 + length ds) None @ rest\<rparr>)"
    by simp_all
  from remove_extra_real [OF extra]
  have lv: "levels r = levels s2"
    and cs: "calls r = h @ GetExecutionsRepresentation # pushes ds xs @
        map (\<lambda>e. DeleteAuthenticationExecution (ex_id e)) (drop (length ds) xs)"
    by (simp_all add: ex2 cs2)
  have remote: "executions_representation kc2 h2 = settle ds xs"
    using apply_run [OF ids [folded xs_def] len] by (simp add: produced cs xs_def)
  have "process_executions kc2 fl check_mode2 0 ds (after_fetch kc2 h2) =
      Inr ((after_fetch kc2 h2)\<lparr>levels := levels s2,
             existing_executions := replicate (0 + length ds) None @ []\<rparr>)"
    by (rule again) (simp_all add: after_fetch_def initial_state_def remote)
  then show ?thesis
    using fetch
    by (simp add: run_unfold remove_extra_cleared after_fetch_def initial_state_def lv
        flip: fl_def ds_def)
qed

theorem second_run_is_idle_witness:
  "create_or_update_executions (keycloak_holding [entry_a_configured, entry_x])
       (flow_of [desired_a_configured]) False [] =
     Inr \<lparr>existing_executions = [None, Some entry_x], levels = [''auth-a'' \<mapsto> 0],
          changed = True,
          diff_before = [StrExisting entry_a_configured, StrExisting entry_x, Newline],
          diff_after = [StrNew ((with_level desired_a_configured 0)\<lparr>ne_id := Some ''a''\<rparr>)],
          err_msg =
            [ErrorLine ''flow'' None ''auth-a'' ''wrong config''
               (Some (ShownConfig desired_config)) (Some (ShownConfig existing_config)),
             ExtraExecution ''flow'' ''X'' 0],
          calls =
            [GetExecutionsRepresentation,
             AddAuthenticationConfigToExecution ''a'' (Some desired_config),
             DeleteAuthenticationExecution ''x'']\<rparr> \<and>
   executions_representation (keycloak_holding [entry_a_configured, entry_x])
       [GetExecutionsRepresentation,
        AddAuthenticationConfigToExecution ''a'' (Some desired_config),
        DeleteAuthenticationExecution ''x''] =
     [entry_a\<lparr>ex_authenticationConfig := Some desired_config\<rparr>] \<and>
   create_or_update_executions (keycloak_holding [entry_a_configured, entry_x])
       (flow_of [desired_a_configured]) False
       [GetExecutionsRepresentation,
        AddAuthenticationConfigToExecution ''a'' (Some desired_config),
        DeleteAuthenticationExecution ''x''] =
     Inr \<lparr>existing_executions = [None], levels = [''auth-a'' \<mapsto> 0], changed = False,
          diff_before = [], diff_after = [], err_msg = [],
          calls =
            [GetExecutionsRepresentation,
             AddAuthenticationConfigToExecution ''a'' (Some desired_config),
             DeleteAuthenticationExecution ''x'', GetExecutionsRepresentation]\<rparr>"
proof -
  define kc where "kc = keycloak_holding [entry_a_configured, entry_x]"
  define r where "r =
     \<lparr>existing_executions = [None, Some entry_x], levels = [''auth-a'' \<mapsto> 0],
      changed = True,
      diff_before = [StrExisting entry_a_configured, StrExisting entry_x, Newline],
      diff_after = [StrNew ((with_level desired_a_configured 0)\<lparr>ne_id := Some ''a''\<rparr>)],
      err_msg =
        [ErrorLine ''flow'' None ''auth-a'' ''wrong config''
           (Some (ShownConfig desired_config)) (Some (ShownConfig existing_config)),
         ExtraExecution ''flow'' ''X'' 0],
      calls =
        [GetExecutionsRepresentation,
         AddAuthenticationConfigToExecution ''a'' (Some desired_config),
         DeleteAuthenticationExecution ''x'']\<rparr>"
  have flow: "positional_from 0 (desired_executions (flow_of [desired_a_configured]))"
    by (simp add: desired_executions_def flow_of_def desired_a_configured_def desired_a_def
        desired_execution_def)
  have keys: "list_all config_keys_distinct (desired_executions (flow_of [desired_a_configured]))"
    by (simp add: desired_executions_def flow_of_def desired_a_configured_def
        config_keys_distinct_def desired_config_def)
  have ids: "distinct (map ex_id (executions_representation kc []))"
    by (simp add: kc_def example_defs existing_execution_def)
  have first: "create_or_update_executions kc (flow_of [desired_a_configured]) False [] = Inr r"
    unfolding kc_def r_def by (simp add: run_defs example_defs)
  have produced: "executions_representation kc (calls r) =
      fold apply_call (drop (length []) (calls r)) (executions_representation kc [])"
    by (simp add: kc_def keycloak_holding_def)
  have fetch: "\<not> call_raises kc (calls r) GetExecutionsRepresentation"
    by (simp add: kc_def keycloak_holding_def)
  have remote: "executions_representation kc (calls r) =
      [entry_a\<lparr>ex_authenticationConfig := Some desired_config\<rparr>]"
    by (simp add: kc_def r_def example_defs existing_execution_def)
  from second_run_is_idle [OF flow keys ids first produced fetch, of False]
  have "create_or_update_executions kc (flow_of [desired_a_configured]) False (calls r) =
     Inr \<lparr>existing_executions = [None], levels = [''auth-a'' \<mapsto> 0], changed = False,
          diff_before = [], diff_after = [], err_msg = [],
          calls = calls r @ [GetExecutionsRepresentation]\<rparr>"
    by (simp add: desired_executions_def flow_of_def r_def)
  with first remote show ?thesis
    by (simp add: kc_def r_def)
qed

subsection \<open>Check mode\<close>

text \<open>
  C9. In check mode the run issues no call but the fetch of the existing executions,
  which does not mutate, whether it ends in a result or in an error; and whenever the run
  outside check mode returns a result, the run in check mode returns the same \<open>changed\<close>
  flag, the same diff and the same report.
\<close>

theorem check_mode_is_pure:
  "(\<forall>r. create_or_update_executions kc config True h = Inr r \<longrightarrow>
        calls r = h @ [GetExecutionsRepresentation]) \<and>
   (\<forall>e cs. create_or_update_executions kc config True h = Inl (e, cs) \<longrightarrow>
        cs = h @ [GetExecutionsRepresentation]) \<and>
   \<not> mutating GetExecutionsRepresentation \<and>
   (\<forall>r. create_or_update_executions kc config False h = Inr r \<longrightarrow>
        create_or_update_executions kc config True h
          = Inr (r\<lparr>calls := h @ [GetExecutionsRepresentation]\<rparr>))"
  using create_or_update_executions_check [of kc config h] run_sim [of kc config False h]
  by (auto simp: wp_def split: sum.splits)

theorem check_mode_is_pure_witness:
  "create_or_update_executions
       (static_keycloak [entry_a\<lparr>ex_authenticationConfig := Some existing_config\<rparr>, entry_x])
       (flow_of [desired_a\<lparr>es_authenticationConfig := Some desired_config\<rparr>]) False [] =
     Inr \<lparr>existing_executions = [None, Some entry_x], levels = [''auth-a'' \<mapsto> 0],
          changed = True,
          diff_before =
            [StrExisting (entry_a\<lparr>ex_authenticationConfig := Some existing_config\<rparr>),
             StrExisting entry_x, Newline],
          diff_after =
            [StrNew ((with_level (desired_a\<lparr>es_authenticationConfig := Some desired_config\<rparr>) 0)
               \<lparr>ne_id := Some ''a''\<rparr>)],
          err_msg =
            [ErrorLine ''flow'' None ''auth-a'' ''wrong config''
               (Some (ShownConfig desired_config)) (Some (ShownConfig existing_config)),
             ExtraExecution ''flow'' ''X'' 0],
          calls =
            [GetExecutionsRepresentation,
             AddAuthenticationConfigToExecution ''a'' (Some desired_config),
             DeleteAuthenticationExecution ''x'']\<rparr> \<and>
   create_or_update_executions
       (static_keycloak [entry_a\<lparr>ex_authenticationConfig := Some existing_config\<rparr>, entry_x])
       (flow_of [desired_a\<lparr>es_authenticationConfig := Some desired_config\<rparr>]) True [] =
     Inr \<lparr>existing_executions = [None, Some entry_x], levels = [''auth-a'' \<mapsto> 0],
          changed = True,
          diff_before =
            [StrExisting (entry_a\<lparr>ex_authenticationConfig := Some existing_config\<rparr>),
             StrExisting entry_x, Newline],
          diff_after =
            [StrNew ((with_level (desired_a\<lparr>es_authenticationConfig := Some desired_config\<rparr>) 0)
               \<lparr>ne_id := Some ''a''\<rparr>)],
          err_msg =
            [ErrorLine ''flow'' None ''auth-a'' ''wrong config''
               (Some (ShownConfig desired_config)) (Some (ShownConfig existing_config)),
             ExtraExecution ''flow'' ''X'' 0],
          calls = [GetExecutionsRepresentation]\<rparr>"
proof -
  have real: "create_or_update_executions
       (static_keycloak [entry_a\<lparr>ex_authenticationConfig := Some existing_config\<rparr>, entry_x])
       (flow_of [desired_a\<lparr>es_authenticationConfig := Some desired_config\<rparr>]) False [] =
     Inr \<lparr>existing_executions = [None, Some entry_x], levels = [''auth-a'' \<mapsto> 0],
          changed = True,
          diff_before =
            [StrExisting (entry_a\<lparr>ex_authenticationConfig := Some existing_config\<rparr>),
             StrExisting entry_x, Newline],
          diff_after =
            [StrNew ((with_level (desired_a\<lparr>es_authenticationConfig := Some desired_config\<rparr>) 0)
               \<lparr>ne_id := Some ''a''\<rparr>)],
          err_msg =
            [ErrorLine ''flow'' None ''auth-a'' ''wrong config''
               (Some (ShownConfig desired_config)) (Some (ShownConfig existing_config)),
             ExtraExecution ''flow'' ''X'' 0],
          calls =
            [GetExecutionsRepresentation,
             AddAuthenticationConfigToExecution ''a'' (Some desired_config),
             DeleteAuthenticationExecution ''x'']\<rparr>"
    by (simp add: run_defs example_defs)
  from check_mode_is_pure
    [of "static_keycloak [entry_a\<lparr>ex_authenticationConfig := Some existing_config\<rparr>, entry_x]"
        "flow_of [desired_a\<lparr>es_authenticationConfig := Some desired_config\<rparr>]" "[]"]
    real
  show ?thesis by simp
qed

subsection \<open>Unresolved parents\<close>

text \<open>
  C3, as stated, fails. The levels are registered inside the loop that also issues the
  calls, one desired execution at a time. Here the first desired execution has a changed
  configuration, which is pushed to the Gateway, and the second names a parent that no
  earlier execution registered: the run stops with the \<^verbatim>\<open>KeyError\<close> of the parent after the
  mutating call.
\<close>

theorem unresolved_parent_counterexample:
  "create_or_update_executions
       (static_keycloak [entry_a\<lparr>ex_authenticationConfig := Some existing_config\<rparr>])
       (flow_of [desired_a\<lparr>es_authenticationConfig := Some desired_config\<rparr>,
                 desired_execution (Some ''auth-b'') None None (Some ''missing'')])
       False [] =
     Inl (KeyError ''missing'',
          [GetExecutionsRepresentation,
           AddAuthenticationConfigToExecution ''a'' (Some desired_config)]) \<and>
   mutating (AddAuthenticationConfigToExecution ''a'' (Some desired_config))"
  by (simp add: run_defs example_defs)

text \<open>
  C3, amended. A desired list with a node whose \<^verbatim>\<open>flowAlias\<close> is not the identifier of an
  earlier node never yields a result: the run ends in an error. When the nodes before it
  are processed without error and the node has an identifier, the error is the
  \<^verbatim>\<open>KeyError\<close> of the unresolved parent, raised when the loop reaches the node, and the
  calls issued are those issued for the nodes before it: none for the node itself or for
  a later one, and none is undone.
\<close>

theorem unresolved_parent_aborts_when_reached:
  assumes "es_flowAlias x = Some a" and "a \<notin> set (identifiers pre)"
  shows "(\<forall>r. create_or_update_executions kc
             \<lparr>cf_alias = fl, cf_authenticationExecutions = Some (pre @ x # post)\<rparr>
             check_mode h \<noteq> Inr r) \<and>
     (\<forall>n s'. get_identifier x = Inr n \<longrightarrow>
        process_executions kc fl check_mode 0 pre (after_fetch kc h) = Inr s' \<longrightarrow>
        process_executions kc fl check_mode 0 (pre @ x # post) (after_fetch kc h)
          = Inl (KeyError a, calls s'))"
proof -
  let ?start = "after_fetch kc h"
  have no_levels: "dom (levels ?start) = {}"
    by (simp add: after_fetch_def initial_state_def)
  have unknown: "levels s' a = None"
    if "process_executions kc fl check_mode 0 pre ?start = Inr s'" for s'
    using wp_InrD [OF process_executions_levels that] assms(2) no_levels by auto
  have stops: "\<exists>e. process_exec kc fl check_mode (length pre) x s' = Inl (e, calls s')"
    if "levels s' a = None" for s'
    using that assms(1)
    by (cases "get_identifier x")
       (simp_all add: process_exec_def register_level_def py_raise_def)
  have never: "process_executions kc fl check_mode 0 (pre @ x # post) ?start \<noteq> Inr r" for r
  proof (cases "process_executions kc fl check_mode 0 pre ?start")
    case (Inl err)
    then show ?thesis by (simp add: process_executions_append)
  next
    case (Inr s')
    from stops [OF unknown [OF Inr]] obtain e
      where "process_exec kc fl check_mode (length pre) x s' = Inl (e, calls s')" by blast
    with Inr show ?thesis by (simp add: process_executions_append)
  qed
  have part1: "create_or_update_executions kc
      \<lparr>cf_alias = fl, cf_authenticationExecutions = Some (pre @ x # post)\<rparr> check_mode h
      \<noteq> Inr r" for r
    using never by (auto simp: run_unfold desired_executions_def and_then_eq_Inr)
  have part2: "process_executions kc fl check_mode 0 (pre @ x # post) ?start
      = Inl (KeyError a, calls s')"
    if has_name: "get_identifier x = Inr n"
      and before_x: "process_executions kc fl check_mode 0 pre ?start = Inr s'" for n s'
    using process_exec_unresolved_parent [OF has_name assms(1) unknown [OF before_x]] before_x
    by (simp add: process_executions_append)
  from part1 part2 show ?thesis by blast
qed

theorem unresolved_parent_aborts_when_reached_witness:
  "es_flowAlias (desired_execution (Some ''auth-b'') None None (Some ''missing''))
     = Some ''missing'' \<and>
   ''missing'' \<notin> set (identifiers [desired_a]) \<and>
   get_identifier (desired_execution (Some ''auth-b'') None None (Some ''missing''))
     = Inr ''auth-b'' \<and>
   process_executions (static_keycloak [entry_a]) ''flow'' False 0
       [desired_a, desired_execution (Some ''auth-b'') None None (Some ''missing''), desired_a]
       (after_fetch (static_keycloak [entry_a]) []) =
     Inl (KeyError ''missing'', [GetExecutionsRepresentation])"
proof -
  have parent: "es_flowAlias (desired_execution (Some ''auth-b'') None None (Some ''missing''))
      = Some ''missing''"
    by (simp add: desired_execution_def)
  have fresh: "''missing'' \<notin> set (identifiers [desired_a])"
    by (simp add: get_identifier_def example_defs desired_execution_def)
  have ident: "get_identifier (desired_execution (Some ''auth-b'') None None (Some ''missing''))
      = Inr ''auth-b''"
    by (simp add: get_identifier_def desired_execution_def)
  have pre: "process_executions (static_keycloak [entry_a]) ''flow'' False 0 [desired_a]
      (after_fetch (static_keycloak [entry_a]) []) =
    Inr \<lparr>existing_executions = [None], levels = [''auth-a'' \<mapsto> 0], changed = False,
         diff_before = [], diff_after = [], err_msg = [],
         calls = [GetExecutionsRepresentation]\<rparr>"
    by (simp add: run_defs example_defs)
  from unresolved_parent_aborts_when_reached
    [OF parent fresh, of "static_keycloak [entry_a]" "''flow''" "[desired_a]" False "[]"]
    ident pre parent fresh
  show ?thesis by simp
qed

subsection \<open>Nodes without an identifier\<close>

text \<open>
  C10, as stated, fails. A desired node with neither \<^verbatim>\<open>providerId\<close> nor \<^verbatim>\<open>displayName\<close> is
  not skipped in silence: \<^verbatim>\<open>get_identifier\<close> raises at line 303, before the matcher is
  called, and the run ends in an error, in both modes.
\<close>

theorem no_identifier_counterexample:
  "create_or_update_executions (static_keycloak [])
       (flow_of [desired_execution None None (Some REQUIRED) None]) False [] =
     Inl (KeyError ''exec'', [GetExecutionsRepresentation]) \<and>
   create_or_update_executions (static_keycloak [])
       (flow_of [desired_execution None None (Some REQUIRED) None]) True [] =
     Inl (KeyError ''exec'', [GetExecutionsRepresentation])"
  by (simp add: run_defs example_defs)

text \<open>
  C10, amended. A desired list with a node that has neither \<^verbatim>\<open>providerId\<close> nor
  \<^verbatim>\<open>displayName\<close> never yields a result; when the nodes before it are processed without
  error, the run stops at that node with the error raised by \<^verbatim>\<open>get_identifier\<close>, having
  issued no call for it.
\<close>

theorem no_identifier_aborts_when_reached:
  assumes "es_providerId x = None" and "es_displayName x = None"
  shows "(\<forall>r. create_or_update_executions kc
             \<lparr>cf_alias = fl, cf_authenticationExecutions = Some (pre @ x # post)\<rparr>
             check_mode h \<noteq> Inr r) \<and>
     (\<forall>s s'. process_executions kc fl check_mode 0 pre s = Inr s' \<longrightarrow>
        process_executions kc fl check_mode 0 (pre @ x # post) s
          = Inl (KeyError ''exec'', calls s'))"
proof -
  have stop: "process_exec kc fl check_mode (0 + length pre) x s'
      = Inl (KeyError ''exec'', calls s')" for s'
    by (rule process_exec_no_identifier [OF assms])
  have "create_or_update_executions kc
      \<lparr>cf_alias = fl, cf_authenticationExecutions = Some (pre @ x # post)\<rparr> check_mode h
      \<noteq> Inr r" for r
    using loop_stops_at(1) [of kc fl check_mode 0 pre x, OF stop]
    by (auto simp: run_unfold desired_executions_def and_then_eq_Inr)
  moreover have "process_executions kc fl check_mode 0 (pre @ x # post) s
      = Inl (KeyError ''exec'', calls s')"
    if "process_executions kc fl check_mode 0 pre s = Inr s'" for s s'
    using loop_stops_at(2) [of kc fl check_mode 0 pre x, OF stop that] .
  ultimately show ?thesis by blast
qed

theorem no_identifier_aborts_when_reached_witness:
  "es_providerId (desired_execution None None (Some REQUIRED) None) = None \<and>
   es_displayName (desired_execution None None (Some REQUIRED) None) = None \<and>
   process_executions (static_keycloak [entry_a]) ''flow'' False 0
       [desired_a, desired_execution None None (Some REQUIRED) None]
       (after_fetch (static_keycloak [entry_a]) []) =
     Inl (KeyError ''exec'', [GetExecutionsRepresentation])"
proof -
  have p: "es_providerId (desired_execution None None (Some REQUIRED) None) = None"
    and d: "es_displayName (desired_execution None None (Some REQUIRED) None) = None"
    by (simp_all add: desired_execution_def)
  have pre: "process_executions (static_keycloak [entry_a]) ''flow'' False 0 [desired_a]
      (after_fetch (static_keycloak [entry_a]) []) =
    Inr \<lparr>existing_executions = [None], levels = [''auth-a'' \<mapsto> 0], changed = False,
         diff_before = [], diff_after = [], err_msg = [],
         calls = [GetExecutionsRepresentation]\<rparr>"
    by (simp add: run_defs example_defs)
  from no_identifier_aborts_when_reached
    [OF p d, of "static_keycloak [entry_a]" "''flow''" "[desired_a]" "[]" False "[]"]
    pre p d
  show ?thesis by simp
qed

subsection \<open>Configuration changes\<close>

text \<open>
  C5, as stated, fails. When the matched entry has no \<^verbatim>\<open>authenticationConfig\<close>, the guard
  \<^verbatim>\<open>"authenticationConfig" in existing_exec\<close> of line 327 makes every comparison false:
  the declared values are all absent from the matched entry, and \<^verbatim>\<open>config_changed\<close> stays
  false. And when the matched entry has a configuration that lacks a declared key, the
  lookup of line 328 raises \<^verbatim>\<open>KeyError\<close> instead of reporting a change; that is the
  claim's own example when \<^verbatim>\<open>{a: "2", b: "3"}\<close> is the dictionary the loop runs over.
\<close>

theorem config_changed_counterexample:
  "config_changed desired_config entry_a = Inr False \<and>
   claimed_config_changed (Some desired_config) (ex_authenticationConfig entry_a) \<and>
   config_changed [(''a'', Some (CfgStr ''2'')), (''b'', Some (CfgStr ''3''))]
       (entry_a\<lparr>ex_authenticationConfig := Some [(''a'', Some (CfgStr ''1''))]\<rparr>) =
     Inl (KeyError ''b'')"
  by (simp add: config_changed_def claimed_config_changed_def differs_at_def example_defs
      existing_execution_def)

text \<open>
  C5, amended. \<^verbatim>\<open>config_changed\<close> is false when the matched entry has no configuration;
  when it has one in which every declared key occurs, \<^verbatim>\<open>config_changed\<close> is true iff at
  least one key of the desired configuration has a declared (non-\<^verbatim>\<open>None\<close>) value that
  differs from the matched entry's value for that key. Without a desired configuration,
  or with \<^verbatim>\<open>config_changed\<close> false, nothing is pushed and the state is unchanged. With the
  existing mapping \<^verbatim>\<open>{a: "1"}\<close> and the desired mapping \<^verbatim>\<open>{a: "2", b: "3"}\<close> under the key
  \<^verbatim>\<open>config\<close>, \<^verbatim>\<open>config_changed\<close> is true; with identical configurations it is false.
\<close>

theorem config_changed_iff_existing_config_differs:
  "(ex_authenticationConfig e = None \<longrightarrow> config_changed cfg e = Inr False) \<and>
   (\<forall>ec. ex_authenticationConfig e = Some ec \<longrightarrow> declared_keys_present cfg ec \<longrightarrow>
         config_changed cfg e = Inr (list_ex (differs_at ec) cfg)) \<and>
   (es_authenticationConfig new_exec = None \<longrightarrow>
      push_config kc fl check_mode n new_exec e s = Inr s) \<and>
   (es_authenticationConfig new_exec = Some cfg \<longrightarrow> config_changed cfg e = Inr False \<longrightarrow>
      push_config kc fl check_mode n new_exec e s = Inr s) \<and>
   config_changed desired_config (entry_a\<lparr>ex_authenticationConfig := Some existing_config\<rparr>)
     = Inr True \<and>
   config_changed desired_config
       (entry_a\<lparr>ex_authenticationConfig := Some existing_config_same\<rparr>)
     = Inr False"
proof -
  have absent: "ex_authenticationConfig e = None \<longrightarrow> config_changed cfg e = Inr False"
    by (simp add: config_changed_def config_changed_loop_no_existing)
  have present: "config_changed cfg e = Inr (list_ex (differs_at ec) cfg)"
    if "ex_authenticationConfig e = Some ec" and "declared_keys_present cfg ec" for ec
    using that by (simp add: config_changed_def config_changed_loop_present)
  have undeclared: "es_authenticationConfig new_exec = None \<longrightarrow>
      push_config kc fl check_mode n new_exec e s = Inr s"
    by (simp add: push_config_def)
  have same: "es_authenticationConfig new_exec = Some cfg \<longrightarrow>
      config_changed cfg e = Inr False \<longrightarrow>
      push_config kc fl check_mode n new_exec e s = Inr s"
    by (simp add: push_config_def)
  have ex1: "config_changed desired_config
      (entry_a\<lparr>ex_authenticationConfig := Some existing_config\<rparr>) = Inr True"
    by (simp add: config_changed_def example_defs existing_execution_def)
  have ex2: "config_changed desired_config
      (entry_a\<lparr>ex_authenticationConfig := Some existing_config_same\<rparr>) = Inr False"
    by (simp add: config_changed_def example_defs existing_execution_def)
  from absent present undeclared same ex1 ex2 show ?thesis by blast
qed

theorem config_changed_iff_existing_config_differs_witness:
  "ex_authenticationConfig (entry_a\<lparr>ex_authenticationConfig := Some existing_config\<rparr>)
     = Some existing_config \<and>
   declared_keys_present desired_config existing_config \<and>
   list_ex (differs_at existing_config) desired_config \<and>
   config_changed desired_config (entry_a\<lparr>ex_authenticationConfig := Some existing_config\<rparr>)
     = Inr (list_ex (differs_at existing_config) desired_config)"
proof -
  have present: "declared_keys_present desired_config existing_config"
    by (simp add: declared_keys_present_def example_defs)
  have differs: "list_ex (differs_at existing_config) desired_config"
    by (simp add: differs_at_def example_defs)
  from config_changed_iff_existing_config_differs
    [of "entry_a\<lparr>ex_authenticationConfig := Some existing_config\<rparr>" desired_config]
    present differs
  show ?thesis by simp
qed

subsection \<open>Level assignment\<close>

text \<open>
  C7. A node with an identifier and no \<^verbatim>\<open>flowAlias\<close> is registered and stored with level
  0; a node whose \<^verbatim>\<open>flowAlias\<close> has the level \<open>parent_level\<close> on record is registered and
  stored with \<open>parent_level + 1\<close>. For the list A (no parent), B (parent A), C (parent B),
  processed in declared order, the levels are 0, 1 and 2.
\<close>

theorem levels_follow_declared_parents:
  "(get_identifier spec = Inr n \<longrightarrow> es_flowAlias spec = None \<longrightarrow>
      register_level lv spec = Inr (n, lv(n \<mapsto> 0), with_level spec 0)) \<and>
   (get_identifier spec = Inr n \<longrightarrow> es_flowAlias spec = Some parent \<longrightarrow>
      lv parent = Some parent_level \<longrightarrow>
      register_level lv spec =
        Inr (n, lv(n \<mapsto> parent_level + 1), with_level spec (parent_level + 1))) \<and>
   ne_level (with_level spec l) = l \<and>
   create_or_update_executions (static_keycloak [])
       \<lparr>cf_alias = fl,
        cf_authenticationExecutions =
          Some [desired_execution None (Some a) r1 None,
                desired_execution None (Some b) r2 (Some a),
                desired_execution (Some c) None r3 (Some b)]\<rparr>
       True h =
     Inr \<lparr>existing_executions = [],
          levels = [a \<mapsto> 0, b \<mapsto> 1, c \<mapsto> 2], changed = True,
          diff_before = [],
          diff_after =
            [StrNew (with_level (desired_execution None (Some a) r1 None) 0), Newline,
             StrNew (with_level (desired_execution None (Some b) r2 (Some a)) 1), Newline,
             StrNew (with_level (desired_execution (Some c) None r3 (Some b)) 2), Newline],
          err_msg =
            [MissingExecution fl a None, MissingExecution fl b (Some a),
             MissingExecution fl c (Some b)],
          calls = h @ [GetExecutionsRepresentation]\<rparr>"
proof -
  have top: "get_identifier spec = Inr n \<longrightarrow> es_flowAlias spec = None \<longrightarrow>
      register_level lv spec = Inr (n, lv(n \<mapsto> 0), with_level spec 0)"
    by (simp add: register_level_def)
  have child: "get_identifier spec = Inr n \<longrightarrow> es_flowAlias spec = Some parent \<longrightarrow>
      lv parent = Some parent_level \<longrightarrow>
      register_level lv spec =
        Inr (n, lv(n \<mapsto> parent_level + 1), with_level spec (parent_level + 1))"
    by (simp add: register_level_def)
  have stored: "ne_level (with_level spec l) = l"
    by (simp add: with_level_def)
  have chain: "create_or_update_executions (static_keycloak [])
       \<lparr>cf_alias = fl,
        cf_authenticationExecutions =
          Some [desired_execution None (Some a) r1 None,
                desired_execution None (Some b) r2 (Some a),
                desired_execution (Some c) None r3 (Some b)]\<rparr>
       True h =
     Inr \<lparr>existing_executions = [],
          levels = [a \<mapsto> 0, b \<mapsto> 1, c \<mapsto> 2], changed = True,
          diff_before = [],
          diff_after =
            [StrNew (with_level (desired_execution None (Some a) r1 None) 0), Newline,
             StrNew (with_level (desired_execution None (Some b) r2 (Some a)) 1), Newline,
             StrNew (with_level (desired_execution (Some c) None r3 (Some b)) 2), Newline],
          err_msg =
            [MissingExecution fl a None, MissingExecution fl b (Some a),
             MissingExecution fl c (Some b)],
          calls = h @ [GetExecutionsRepresentation]\<rparr>"
    by (simp add: run_defs)
  from top child stored chain show ?thesis by blast
qed

theorem levels_follow_declared_parents_witness:
  "get_identifier (desired_execution (Some ''cookie'') None (Some REQUIRED) (Some ''Sub''))
     = Inr ''cookie'' \<and>
   es_flowAlias (desired_execution (Some ''cookie'') None (Some REQUIRED) (Some ''Sub''))
     = Some ''Sub'' \<and>
   [''Sub'' \<mapsto> (0::int)] ''Sub'' = Some 0 \<and>
   register_level [''Sub'' \<mapsto> 0]
       (desired_execution (Some ''cookie'') None (Some REQUIRED) (Some ''Sub'')) =
     Inr (''cookie'', [''Sub'' \<mapsto> 0, ''cookie'' \<mapsto> 1],
          with_level (desired_execution (Some ''cookie'') None (Some REQUIRED) (Some ''Sub'')) 1)"
  using levels_follow_declared_parents
    [of "desired_execution (Some ''cookie'') None (Some REQUIRED) (Some ''Sub'')" "''cookie''"
        "[''Sub'' \<mapsto> 0]" "''Sub''" 0]
  by (simp add: get_identifier_def desired_execution_def)

subsection \<open>Extra executions are deleted\<close>

text \<open>
  When the fetch succeeds, the loop over the desired nodes has ended in the state \<open>s\<close>,
  every entry that remains carries a \<^verbatim>\<open>displayName\<close> and the remote service accepts the
  deletions, every entry of the working list that no match or rename has consumed is, in
  list order, written to \<^verbatim>\<open>before\<close>, reported by a line with its \<^verbatim>\<open>displayName\<close> and its
  level and, outside check mode, deleted through the Gateway by its \<^verbatim>\<open>id\<close>; \<open>changed\<close> is
  set as soon as there is one such entry. With the existing entries X and Y and a desired
  list that declares only X, Y is deleted and reported.
\<close>

lemma named_orphans_are_deleted_and_reported:
  "(\<not> call_raises kc h GetExecutionsRepresentation \<longrightarrow>
    process_executions kc (cf_alias config) check_mode 0 (desired_executions config)
        (after_fetch kc h) = Inr s \<longrightarrow>
    list_all named (orphans (existing_executions s)) \<longrightarrow>
    (check_mode \<or> deletes_succeed kc) \<longrightarrow>
    create_or_update_executions kc config check_mode h =
      Inr (s\<lparr>changed := changed s \<or> orphans (existing_executions s) \<noteq> [],
             diff_before :=
               diff_before s @
               concat (map (\<lambda>e. [StrExisting e, Newline]) (orphans (existing_executions s))),
             err_msg :=
               err_msg s @ map (extra_line (cf_alias config)) (orphans (existing_executions s)),
             calls :=
               calls s @
               (if check_mode then []
                else map (\<lambda>e. DeleteAuthenticationExecution (ex_id e))
                       (orphans (existing_executions s)))\<rparr>)) \<and>
   create_or_update_executions
       (static_keycloak
          [existing_execution ix (Some px) dx rx 0 0,
           existing_execution iy py (Some dy) ry ly ny])
       \<lparr>cf_alias = fl,
        cf_authenticationExecutions = Some [desired_execution (Some px) None None None]\<rparr>
       False h2 =
     Inr \<lparr>existing_executions = [None, Some (existing_execution iy py (Some dy) ry ly ny)],
          levels = [px \<mapsto> 0], changed = True,
          diff_before = [StrExisting (existing_execution iy py (Some dy) ry ly ny), Newline],
          diff_after = [], err_msg = [ExtraExecution fl dy ly],
          calls = h2 @ [GetExecutionsRepresentation, DeleteAuthenticationExecution iy]\<rparr>"
proof -
  have general: "create_or_update_executions kc config check_mode h =
      Inr (s\<lparr>changed := changed s \<or> orphans (existing_executions s) \<noteq> [],
             diff_before :=
               diff_before s @
               concat (map (\<lambda>e. [StrExisting e, Newline]) (orphans (existing_executions s))),
             err_msg :=
               err_msg s @ map (extra_line (cf_alias config)) (orphans (existing_executions s)),
             calls :=
               calls s @
               (if check_mode then []
                else map (\<lambda>e. DeleteAuthenticationExecution (ex_id e))
                       (orphans (existing_executions s)))\<rparr>)"
    if "\<not> call_raises kc h GetExecutionsRepresentation"
      and "process_executions kc (cf_alias config) check_mode 0 (desired_executions config)
        (after_fetch kc h) = Inr s"
      and "list_all named (orphans (existing_executions s))"
      and "check_mode \<or> deletes_succeed kc"
    using that(1,2) remove_extra_all [OF that(3,4), of "cf_alias config" s]
    by (simp add: run_unfold)
  have example: "create_or_update_executions
       (static_keycloak
          [existing_execution ix (Some px) dx rx 0 0,
           existing_execution iy py (Some dy) ry ly ny])
       \<lparr>cf_alias = fl,
        cf_authenticationExecutions = Some [desired_execution (Some px) None None None]\<rparr>
       False h2 =
     Inr \<lparr>existing_executions = [None, Some (existing_execution iy py (Some dy) ry ly ny)],
          levels = [px \<mapsto> 0], changed = True,
          diff_before = [StrExisting (existing_execution iy py (Some dy) ry ly ny), Newline],
          diff_after = [], err_msg = [ExtraExecution fl dy ly],
          calls = h2 @ [GetExecutionsRepresentation, DeleteAuthenticationExecution iy]\<rparr>"
    by (simp add: run_defs)
  from general example show ?thesis by blast
qed

lemma named_orphans_are_deleted_and_reported_example:
  "\<not> call_raises (static_keycloak [entry_a, entry_x]) [] GetExecutionsRepresentation \<and>
   process_executions (static_keycloak [entry_a, entry_x]) ''flow'' False 0 [desired_a]
       (after_fetch (static_keycloak [entry_a, entry_x]) []) =
     Inr \<lparr>existing_executions = [None, Some entry_x], levels = [''auth-a'' \<mapsto> 0],
          changed = False, diff_before = [], diff_after = [], err_msg = [],
          calls = [GetExecutionsRepresentation]\<rparr> \<and>
   list_all named (orphans [None, Some entry_x]) \<and>
   deletes_succeed (static_keycloak [entry_a, entry_x]) \<and>
   create_or_update_executions (static_keycloak [entry_a, entry_x]) (flow_of [desired_a])
       False [] =
     Inr \<lparr>existing_executions = [None, Some entry_x], levels = [''auth-a'' \<mapsto> 0],
          changed = True, diff_before = [StrExisting entry_x, Newline], diff_after = [],
          err_msg = [ExtraExecution ''flow'' ''X'' 0],
          calls = [GetExecutionsRepresentation, DeleteAuthenticationExecution ''x'']\<rparr>"
proof -
  have fetch: "\<not> call_raises (static_keycloak [entry_a, entry_x]) []
      GetExecutionsRepresentation"
    by (simp add: static_keycloak_def)
  have loop: "process_executions (static_keycloak [entry_a, entry_x]) ''flow'' False 0
      [desired_a] (after_fetch (static_keycloak [entry_a, entry_x]) []) =
     Inr \<lparr>existing_executions = [None, Some entry_x], levels = [''auth-a'' \<mapsto> 0],
          changed = False, diff_before = [], diff_after = [], err_msg = [],
          calls = [GetExecutionsRepresentation]\<rparr>"
    by (simp add: run_defs example_defs)
  have names: "list_all named (orphans [None, Some entry_x])"
    by (simp add: named_def example_defs existing_execution_def)
  have deletes: "deletes_succeed (static_keycloak [entry_a, entry_x])"
    by (simp add: deletes_succeed_def static_keycloak_def)
  from named_orphans_are_deleted_and_reported
    [of "static_keycloak [entry_a, entry_x]" "[]" "flow_of [desired_a]" False
        "\<lparr>existing_executions = [None, Some entry_x], levels = [''auth-a'' \<mapsto> 0],
          changed = False, diff_before = [], diff_after = [], err_msg = [],
          calls = [GetExecutionsRepresentation]\<rparr>"]
    fetch loop names deletes
  show ?thesis
    by (simp add: flow_of_def desired_executions_def extra_line_def entry_x_def
        existing_execution_def)
qed

text \<open>
  C8. The claim holds for the extra executions that carry a \<^verbatim>\<open>displayName\<close> and fails for
  one that does not. Line 382 reads \<^verbatim>\<open>existing_exec["displayName"]\<close> without a test, where
  the matcher (lines 222-223) and \<^verbatim>\<open>hasSameName\<close> (lines 237-240) test the key with \<^verbatim>\<open>in\<close>
  before they read it. With the existing executions A and Y, Y having a \<^verbatim>\<open>providerId\<close> and
  no \<^verbatim>\<open>displayName\<close>, and a desired list that declares only A, the run stops with
  \<^verbatim>\<open>KeyError('displayName')\<close>: Y is neither deleted nor reported, in either mode. With the
  named extra execution X between them, X is deleted and then the run stops.
\<close>

theorem unnamed_extra_execution_aborts:
  "create_or_update_executions (static_keycloak [entry_a, entry_y]) (flow_of [desired_a])
       False [] =
     Inl (KeyError ''displayName'', [GetExecutionsRepresentation]) \<and>
   create_or_update_executions (static_keycloak [entry_a, entry_x, entry_y])
       (flow_of [desired_a]) False [] =
     Inl (KeyError ''displayName'',
          [GetExecutionsRepresentation, DeleteAuthenticationExecution ''x'']) \<and>
   create_or_update_executions (static_keycloak [entry_a, entry_y]) (flow_of [desired_a])
       True [] =
     Inl (KeyError ''displayName'', [GetExecutionsRepresentation])"
  by (simp add: run_defs example_defs)

subsection \<open>Attribute updates and repositioning\<close>

text \<open>
  The function of lines 255-262, called as it is declared, sends the update, and lines
  344-349, once reached outside check mode, send the delta \<open>exec_index - new_exec_index\<close>.
\<close>

lemma update_authentication_execution_as_declared:
  "es_requirement new_exec \<noteq> None \<Longrightarrow>
   \<not> call_raises kc (calls s)
       (UpdateAuthenticationExecutions flow_alias_parent (updated_exec new_exec)) \<Longrightarrow>
   update_authentication_execution kc flow_alias_parent new_exec s =
     Inr (s\<lparr>calls := calls s @
       [UpdateAuthenticationExecutions flow_alias_parent (updated_exec new_exec)]\<rparr>)"
  by (simp add: update_authentication_execution_def kc_call_def)

lemma push_priority_delta:
  "ne_id new_exec = Some i \<Longrightarrow>
   \<not> call_raises kc (calls s) (ChangeExecutionPriority i (exec_index - new_exec_index)) \<Longrightarrow>
   push_priority kc fl False exec_name exec_index new_exec_index new_exec s =
     Inr (s\<lparr>changed := True,
            err_msg :=
              add_error_line (err_msg s) ''wrong index'' fl exec_name None
                (Some (ShownInt new_exec_index)) (Some (ShownInt exec_index)),
            calls := calls s @ [ChangeExecutionPriority i (exec_index - new_exec_index)]\<rparr>)"
  by (simp add: push_priority_def kc_call_def)

text \<open>
  But every call site passes five arguments, and line 340 stands before line 347: on no
  input does a run issue an attribute update or a priority change.
\<close>

lemma no_run_updates_or_reorders:
  "clean h \<Longrightarrow>
   (\<forall>r. create_or_update_executions kc config check_mode h = Inr r \<longrightarrow> clean (calls r)) \<and>
   (\<forall>e cs. create_or_update_executions kc config check_mode h = Inl (e, cs) \<longrightarrow> clean cs)"
  using run_clean [of h kc config check_mode]
  by (auto simp: wp_def split: sum.splits)

text \<open>
  C4. The matched entry has the requirement \<^verbatim>\<open>DISABLED\<close>, the desired node asks for
  \<^verbatim>\<open>REQUIRED\<close>. Outside check mode the call of line 340 raises \<^verbatim>\<open>TypeError\<close>: the run fails
  and no update reaches the Gateway. In check mode the same comparison sets \<open>changed\<close> and
  appends the report line.
\<close>

theorem attribute_update_raises_type_error:
  "create_or_update_executions (static_keycloak [entry_a\<lparr>ex_requirement := DISABLED\<rparr>])
       (flow_of [desired_a\<lparr>es_requirement := Some REQUIRED\<rparr>]) False [] =
     Inl (TypeError, [GetExecutionsRepresentation]) \<and>
   create_or_update_executions (static_keycloak [entry_a\<lparr>ex_requirement := DISABLED\<rparr>])
       (flow_of [desired_a\<lparr>es_requirement := Some REQUIRED\<rparr>]) True [] =
     Inr \<lparr>existing_executions = [None], levels = [''auth-a'' \<mapsto> 0], changed = True,
          diff_before = [StrExisting (entry_a\<lparr>ex_requirement := DISABLED\<rparr>)],
          diff_after =
            [StrNew ((with_level (desired_a\<lparr>es_requirement := Some REQUIRED\<rparr>) 0)
               \<lparr>ne_id := Some ''a''\<rparr>)],
          err_msg =
            [ErrorLine ''flow'' None ''auth-a'' ''wrong requirement''
               (Some (ShownRequirement REQUIRED)) (Some (ShownRequirement DISABLED))],
          calls = [GetExecutionsRepresentation]\<rparr>"
  by (simp add: run_defs example_defs)

text \<open>
  C6. The desired node has index 0 and its match stands at position 2. Outside check mode
  the run fails with the \<^verbatim>\<open>TypeError\<close> of line 340 before line 347 is reached, so no
  priority change with the delta 2 is issued. In check mode the position mismatch is
  reported, with the expected index 0 and the actual position 2.
\<close>

theorem reposition_raises_type_error:
  "create_or_update_executions
       (static_keycloak
          [existing_execution ''p'' (Some ''auth-p'') (Some ''P'') REQUIRED 0 0,
           existing_execution ''q'' (Some ''auth-q'') (Some ''Q'') REQUIRED 0 1,
           entry_a\<lparr>ex_index := 2\<rparr>])
       (flow_of [desired_a]) False [] =
     Inl (TypeError, [GetExecutionsRepresentation]) \<and>
   create_or_update_executions
       (static_keycloak
          [existing_execution ''p'' (Some ''auth-p'') (Some ''P'') REQUIRED 0 0,
           existing_execution ''q'' (Some ''auth-q'') (Some ''Q'') REQUIRED 0 1,
           entry_a\<lparr>ex_index := 2\<rparr>])
       (flow_of [desired_a]) True [] =
     Inr \<lparr>existing_executions =
            [Some (existing_execution ''p'' (Some ''auth-p'') (Some ''P'') REQUIRED 0 0),
             Some (existing_execution ''q'' (Some ''auth-q'') (Some ''Q'') REQUIRED 0 1),
             None],
          levels = [''auth-a'' \<mapsto> 0], changed = True,
          diff_before =
            [StrExisting (entry_a\<lparr>ex_index := 2\<rparr>),
             StrExisting (existing_execution ''p'' (Some ''auth-p'') (Some ''P'') REQUIRED 0 0),
             Newline,
             StrExisting (existing_execution ''q'' (Some ''auth-q'') (Some ''Q'') REQUIRED 0 1),
             Newline],
          diff_after = [StrNew ((with_level desired_a 0)\<lparr>ne_id := Some ''a''\<rparr>)],
          err_msg =
            [ErrorLine ''flow'' None ''auth-a'' ''wrong requirement'' None
               (Some (ShownRequirement REQUIRED)),
             ErrorLine ''flow'' None ''auth-a'' ''wrong index'' (Some (ShownInt 0))
               (Some (ShownInt 2)),
             ExtraExecution ''flow'' ''P'' 0, ExtraExecution ''flow'' ''Q'' 0],
          calls = [GetExecutionsRepresentation]\<rparr>"
  by (simp add: run_defs example_defs)

end
